theory Spec2Isabelle
  imports Main "HOL-Library.Word"
begin

unbundle bit_operations_syntax

chapter \<open>The PICA command processor (video_core/command_processor.cpp)\<close>

text \<open>
  A shallow embedding of the command processor: the byte-masked register store, the
  float-uniform loader, the draw trigger (fast-path decision, worker count, the
  single-threaded vertex-shader loop with its vertex cache) and the command-list walk.
  Machine integers are words of their C++ width, host pointers to \<open>u32\<close> are integers
  counting 32-bit words, and the calls into collaborators that the properties below
  are about (log, trace, debug context, rasterizer) are recorded as events.
\<close>

type_synonym u8 = "8 word"
type_synonym u16 = "16 word"
type_synonym u32 = "32 word"

section \<open>Register file: the byte-masked store\<close>

text \<open>Lines 35--38: the table that expands a 4-bit mask to a 4-byte mask.\<close>

definition expand_bits_to_bytes :: "u32 list" where
  "expand_bits_to_bytes =
    [0x00000000, 0x000000ff, 0x0000ff00, 0x0000ffff, 0x00ff0000, 0x00ff00ff, 0x00ffff00, 0x00ffffff,
     0xff000000, 0xff0000ff, 0xff00ff00, 0xff00ffff, 0xffff0000, 0xffff00ff, 0xffffff00, 0xffffffff]"

text \<open>
  Lines 122--126 of \<open>WritePicaReg\<close>: \<open>old_value\<close>, \<open>write_mask\<close> and the value stored.
  The table has 16 entries; for \<open>pmask \<ge> 16\<close> the source reads past it, and the model's
  \<open>!\<close> is unspecified there as well.
\<close>

definition masked_value :: "u32 \<Rightarrow> u32 \<Rightarrow> u32 \<Rightarrow> u32" where
  "masked_value old_value val pmask =
     (let write_mask = expand_bits_to_bytes ! unat pmask
      in (old_value AND NOT write_mask) OR (val AND write_mask))"

text \<open>
  The store into \<open>regs.reg_array\<close>. The array has \<open>Regs::NUM_REGS\<close> entries, so
  \<open>NUM_REGS\<close>, a constant of the register header, is the length of the list.
\<close>

definition store_reg :: "u32 list \<Rightarrow> u32 \<Rightarrow> u32 \<Rightarrow> u32 \<Rightarrow> u32 list" where
  "store_reg reg_array reg_id val pmask =
     reg_array[unat reg_id := masked_value (reg_array ! unat reg_id) val pmask]"




section \<open>Uniform loader: \<open>WriteUniformFloatReg\<close>\<close>

text \<open>
  \<open>Common::Vec4<float24>\<close>; its \<open>operator[]\<close> numbers the components \<open>x, y, z, w\<close>
  from 0 to 3. The type \<open>'f\<close> stands for \<open>float24\<close>, which stays abstract here.
\<close>

datatype 'f vec4 = Vec4 (vec_x: 'f) (vec_y: 'f) (vec_z: 'f) (vec_w: 'f)

fun vec4_get :: "'f vec4 \<Rightarrow> nat \<Rightarrow> 'f" where
  "vec4_get u 0 = vec_x u"
| "vec4_get u (Suc 0) = vec_y u"
| "vec4_get u (Suc (Suc 0)) = vec_z u"
| "vec4_get u _ = vec_w u"

fun vec4_set :: "nat \<Rightarrow> 'f \<Rightarrow> 'f vec4 \<Rightarrow> 'f vec4" where
  "vec4_set 0 a (Vec4 px py pz pw) = Vec4 a py pz pw"
| "vec4_set (Suc 0) a (Vec4 px py pz pw) = Vec4 px a pz pw"
| "vec4_set (Suc (Suc 0)) a (Vec4 px py pz pw) = Vec4 px py a pw"
| "vec4_set _ a (Vec4 px py pz pw) = Vec4 px py pz a"

datatype 'f uniform_event =
    LogErrorInvalidFloatUniformIndex u32
  | LogTraceSetFloatUniform u32 "'f vec4"

text \<open>
  What \<open>WriteUniformFloatReg\<close> reads and writes through its reference parameters:
  \<open>config.uniform_setup\<close> (the destination index and the format flag \<open>IsFloat32()\<close>),
  \<open>setup.uniforms.f\<close>, \<open>float_regs_counter\<close> and \<open>uniform_write_buffer\<close>, and the log.
\<close>

record 'f uniform_unit =
  us_index :: u32
  us_float32 :: bool
  uniforms_f :: "'f vec4 list"
  float_regs_counter :: int
  uniform_write_buffer :: "u32 list"
  uf_log :: "'f uniform_event list"

text \<open>Lines 91--96: the four 24-bit raw values cut out of three staged words.\<close>

definition packed_w :: "u32 list \<Rightarrow> u32" where
  "packed_w buf = drop_bit 8 (buf ! 0)"

definition packed_z :: "u32 list \<Rightarrow> u32" where
  "packed_z buf = push_bit 16 (buf ! 0 AND 0xFF) OR (drop_bit 16 (buf ! 1) AND 0xFFFF)"

definition packed_y :: "u32 list \<Rightarrow> u32" where
  "packed_y buf = push_bit 8 (buf ! 1 AND 0xFFFF) OR (drop_bit 24 (buf ! 2) AND 0xFF)"

definition packed_x :: "u32 list \<Rightarrow> u32" where
  "packed_x buf = buf ! 2 AND 0xFFFFFF"

text \<open>
  Lines 63--108. \<open>FromFloat32\<close> stands for \<open>float24::FromFloat32\<close> applied to the float
  whose IEEE-754 bit pattern is the staged word (the source reinterprets the word in
  place), \<open>FromRaw\<close> for \<open>float24::FromRaw\<close>. The result is \<open>None\<close> where the source writes
  outside the four-word staging buffer. The index is below 96 when it is incremented, so
  \<open>Assign\<close> never truncates it.
\<close>

definition WriteUniformFloatReg ::
  "(u32 \<Rightarrow> 'f) \<Rightarrow> (u32 \<Rightarrow> 'f) \<Rightarrow> 'f uniform_unit \<Rightarrow> u32 \<Rightarrow> 'f uniform_unit option" where
  "WriteUniformFloatReg FromFloat32 FromRaw s val =
     (if float_regs_counter s < 0 \<or> 4 \<le> float_regs_counter s then None
      else
        let buf = (uniform_write_buffer s)[nat (float_regs_counter s) := val];
            cnt = float_regs_counter s + 1;
            s1 = s\<lparr>uniform_write_buffer := buf, float_regs_counter := cnt\<rparr>
        in if (4 \<le> cnt \<and> us_float32 s) \<or> (3 \<le> cnt \<and> \<not> us_float32 s) then
             (let s2 = s1\<lparr>float_regs_counter := 0\<rparr>
              in if 96 \<le> us_index s then
                   Some (s2\<lparr>uf_log := uf_log s @ [LogErrorInvalidFloatUniformIndex (us_index s)]\<rparr>)
                 else
                   let uniform =
                         (if us_float32 s then
                            fold (\<lambda>i u. vec4_set (3 - i) (FromFloat32 (buf ! i)) u) [0, 1, 2, 3]
                              (uniforms_f s ! unat (us_index s))
                          else
                            Vec4 (FromRaw (packed_x buf)) (FromRaw (packed_y buf))
                                 (FromRaw (packed_z buf)) (FromRaw (packed_w buf)))
                   in Some (s2\<lparr>uniforms_f := (uniforms_f s)[unat (us_index s) := uniform],
                               uf_log := uf_log s @ [LogTraceSetFloatUniform (us_index s) uniform],
                               us_index := us_index s + 1\<rparr>))
           else Some s1)"

text \<open>A sequence of writes to the \<open>set_value\<close> registers of one unit, in order.\<close>

fun WriteUniformFloatRegs ::
  "(u32 \<Rightarrow> 'f) \<Rightarrow> (u32 \<Rightarrow> 'f) \<Rightarrow> 'f uniform_unit \<Rightarrow> u32 list \<Rightarrow> 'f uniform_unit option" where
  "WriteUniformFloatRegs FromFloat32 FromRaw s [] = Some s"
| "WriteUniformFloatRegs FromFloat32 FromRaw s (v # vs) =
     (case WriteUniformFloatReg FromFloat32 FromRaw s v of
        None \<Rightarrow> None
      | Some s' \<Rightarrow> WriteUniformFloatRegs FromFloat32 FromRaw s' vs)"

text \<open>The bit fields of the specification: bits \<open>hi..lo\<close> of a word, and concatenation.\<close>

definition bits :: "u32 \<Rightarrow> nat \<Rightarrow> nat \<Rightarrow> u32" where
  "bits word hi lo = take_bit (Suc hi - lo) (drop_bit lo word)"

definition cat :: "u32 \<Rightarrow> nat \<Rightarrow> u32 \<Rightarrow> u32" where
  "cat high n low = push_bit n high OR low"

text \<open>
  The condition of lines 74--75 on the counter after its increment: this write flushes.
  A vector takes four words in 32-bit mode and three in packed mode.
\<close>

definition flushes :: "'f uniform_unit \<Rightarrow> bool" where
  "flushes s \<longleftrightarrow>
     (4 \<le> float_regs_counter s + 1 \<and> us_float32 s) \<or>
     (3 \<le> float_regs_counter s + 1 \<and> \<not> us_float32 s)"

definition words_per_vector :: "'f uniform_unit \<Rightarrow> nat" where
  "words_per_vector s = (if us_float32 s then 4 else 3)"

text \<open>The well-formed units: 96 float uniforms, a four-word buffer, a counter inside it.\<close>

definition unit_wf :: "'f uniform_unit \<Rightarrow> bool" where
  "unit_wf s \<longleftrightarrow> length (uniforms_f s) = 96 \<and> length (uniform_write_buffer s) = 4 \<and>
     0 \<le> float_regs_counter s \<and> float_regs_counter s < 4"

section \<open>The draw trigger\<close>

text \<open>
  \<open>PipelineRegs::UseGS\<close> and \<open>PipelineRegs::TriangleTopology\<close>. The register field
  \<open>use_gs\<close> can hold values that are neither \<open>No\<close> nor \<open>Yes\<close>; the source sends them
  through the \<open>else\<close> branch of line 291.
\<close>

datatype UseGS = No | Yes | UseGS_other

datatype TriangleTopology = List | Strip | Fan | Shader

text \<open>
  One entry of the static vertex cache \<open>vs_output\<close> (lines 313--323). The union of
  \<open>output_attr\<close> and \<open>output_vertex\<close> is one field of an abstract type \<open>'c\<close>: within a batch
  only one of the two members is used.
\<close>

record 'c CachedVertex =
  cv_output :: 'c
  cv_batch :: u32
  cv_lock :: bool

text \<open>
  What a draw trigger reads besides the cache: registers, settings, guest memory (the
  index array, as its 8-bit and its 16-bit view) and the collaborators.
  \<^item> \<open>shade unit index vertex out\<close> stands for lines 386--404, which call only
    collaborators: \<open>LoadVertex\<close>, \<open>LoadInput\<close>, \<open>Run\<close>, \<open>WriteOutput\<close> and, without
    geometry shader, \<open>FromAttributeBuffer\<close>. It takes the state of the shader unit, the
    loop index, the vertex index and the previous content of the cache entry, and
    returns the new state of the unit and the new content of the entry.
  \<^item> \<open>need_index_input index\<close> is the answer of \<open>geometry_pipeline.NeedIndexInput()\<close> in
    iteration \<open>index\<close> of the consumption loop, and \<open>need_index_input_after_setup\<close> its
    answer at line 434, right after \<open>Reconfigure\<close> and \<open>Setup\<close>.
  \<^item> \<open>resize_reallocates\<close>: whether \<open>vs_output.resize\<close> moves the vector; the copy
    constructor of \<open>CachedVertex\<close> copies nothing, so a moved entry is a fresh one.
\<close>

record ('c, 'u) draw_env =
  hw_shader_enabled :: bool
  assembler_is_empty :: bool
  topology :: TriangleTopology
  pipeline_use_gs :: UseGS
  num_vertices :: u32
  vertex_offset :: u32
  index_u16 :: bool
  index_address_8 :: "nat \<Rightarrow> u8"
  index_address_16 :: "nat \<Rightarrow> u16"
  AccelerateDrawBatch :: "bool \<Rightarrow> bool"
  min_vertices_per_thread :: u32
  hardware_concurrency :: u32
  need_index_input :: "nat \<Rightarrow> bool"
  need_index_input_after_setup :: bool
  shade :: "'u \<Rightarrow> nat \<Rightarrow> u32 \<Rightarrow> 'c \<Rightarrow> 'u \<times> 'c"
  fresh_unit :: 'u
  fresh_output :: 'c
  resize_reallocates :: bool

text \<open>
  Lines 277--293: the flag \<open>accelerate_draw\<close>, from \<open>g_hw_shader_enabled\<close>,
  \<open>primitive_assembler.IsEmpty()\<close>, \<open>regs.pipeline.use_gs\<close>, the topology of the
  assembler and \<open>regs.pipeline.num_vertices\<close>.
\<close>

definition accelerate_draw :: "bool \<Rightarrow> bool \<Rightarrow> UseGS \<Rightarrow> TriangleTopology \<Rightarrow> u32 \<Rightarrow> bool" where
  "accelerate_draw hw_shader is_empty use_gs topo n_vertices =
     (let acc = hw_shader \<and> is_empty
      in if use_gs = No then
           (if topo = Shader \<or> topo = List then acc \<and> n_vertices mod 3 = 0 else acc)
         else False)"

text \<open>
  Lines 297--303: the fast path is taken, and the rest of the case skipped. The
  rasterizer is asked only when \<open>accelerate_draw\<close> holds.
\<close>

definition takes_fast_path ::
  "bool \<Rightarrow> bool \<Rightarrow> UseGS \<Rightarrow> TriangleTopology \<Rightarrow> u32 \<Rightarrow> (bool \<Rightarrow> bool) \<Rightarrow> bool \<Rightarrow> bool" where
  "takes_fast_path hw_shader is_empty use_gs topo n_vertices accelerate_batch is_indexed \<longleftrightarrow>
     accelerate_draw hw_shader is_empty use_gs topo n_vertices \<and> accelerate_batch is_indexed"

text \<open>
  Lines 420--422: \<open>vs_threads\<close> from \<open>regs.pipeline.num_vertices\<close>,
  \<open>Settings::values.min_vertices_per_thread\<close> and \<open>std::thread::hardware_concurrency()\<close>,
  in 32-bit unsigned arithmetic. Dividing by a \<open>min_vertices_per_thread\<close> of 0 is
  undefined in the source: \<open>None\<close>.
\<close>

definition vs_threads :: "u32 \<Rightarrow> u32 \<Rightarrow> u32 \<Rightarrow> u32 option" where
  "vs_threads n_vertices min_per_thread concurrency =
     (if min_per_thread = 0 then None
      else Some (min (n_vertices div min_per_thread) (concurrency - 1)))"

text \<open>
  Lines 424--430: the loop runs inline, or one worker per \<open>thread_id < vs_threads\<close> is
  pushed to the thread pool with the arguments \<open>(thread_id, vs_threads)\<close>.
\<close>

datatype vs_dispatch = Inline | Workers "(u32 \<times> u32) list"

definition dispatch_vs :: "u32 \<Rightarrow> vs_dispatch" where
  "dispatch_vs threads =
     (if threads = 0 then Inline
      else Workers (map (\<lambda>thread_id. (of_nat thread_id, threads)) [0..<unat threads]))"

text \<open>
  Lines 325--337: the cache grows for a non-indexed draw, and \<open>batch_id\<close> advances; when
  it wraps to 0 it advances once more and every tag is reset.
\<close>

definition fresh_entry :: "('c, 'u) draw_env \<Rightarrow> 'c CachedVertex" where
  "fresh_entry env = \<lparr>cv_output = fresh_output env, cv_batch = 0, cv_lock = False\<rparr>"

definition resize_cache :: "('c, 'u) draw_env \<Rightarrow> bool \<Rightarrow> 'c CachedVertex list \<Rightarrow> 'c CachedVertex list" where
  "resize_cache env is_indexed vs_output =
     (if \<not> is_indexed \<and> length vs_output < unat (num_vertices env) then
        (if resize_reallocates env then replicate (unat (num_vertices env)) (fresh_entry env)
         else vs_output @ replicate (unat (num_vertices env) - length vs_output) (fresh_entry env))
      else vs_output)"

definition next_batch :: "'c CachedVertex list \<times> u32 \<Rightarrow> 'c CachedVertex list \<times> u32" where
  "next_batch cb =
     (let vs_output = fst cb; batch_id = snd cb + 1
      in if batch_id = 0 then (map (\<lambda>entry. entry\<lparr>cv_batch := 0\<rparr>) vs_output, batch_id + 1)
         else (vs_output, batch_id))"

text \<open>Lines 346--350: \<open>VertexIndex\<close>.\<close>

definition VertexIndex :: "('c, 'u) draw_env \<Rightarrow> bool \<Rightarrow> nat \<Rightarrow> u32" where
  "VertexIndex env is_indexed index =
     (if is_indexed
      then (if index_u16 env then ucast (index_address_16 env index)
            else ucast (index_address_8 env index))
      else of_nat index + vertex_offset env)"

text \<open>
  The state of the loop \<open>VSUnitLoop\<close>: the cache, the loop's own \<open>shader_unit\<close>, and the
  vertex-shader invocations made so far, each with its loop index, its vertex index
  and the output it left in the cache.
\<close>

record ('c, 'u) vs_loop_state =
  vs_output :: "'c CachedVertex list"
  shader_unit :: 'u
  invocations :: "(nat \<times> u32 \<times> 'c) list"

text \<open>
  Lines 366--413 with \<open>single_thread\<close> true: one iteration of \<open>VSUnitLoop\<close> as the inline
  call \<open>VSUnitLoop(0, std::integral_constant<u32, 1>{})\<close> runs it.
\<close>

definition VSUnitLoop_body ::
  "('c, 'u) draw_env \<Rightarrow> bool \<Rightarrow> u32 \<Rightarrow> nat \<Rightarrow> ('c, 'u) vs_loop_state \<Rightarrow> ('c, 'u) vs_loop_state" where
  "VSUnitLoop_body env is_indexed batch_id index st =
     (let vertex = VertexIndex env is_indexed index;
          slot = (if is_indexed then unat vertex else index);
          cached_vertex = vs_output st ! slot
      in if is_indexed \<and> cv_batch cached_vertex = batch_id then st
         else
           let (unit', out) = shade env (shader_unit st) index vertex (cv_output cached_vertex);
               shaded = cached_vertex\<lparr>cv_output := out\<rparr>;
               tagged = (if is_indexed then shaded\<lparr>cv_batch := batch_id\<rparr> else shaded)
           in st\<lparr>vs_output := (vs_output st)[slot := tagged],
                 shader_unit := unit',
                 invocations := invocations st @ [(index, vertex, out)]\<rparr>)"

text \<open>The loop: \<open>index\<close> runs from 0 below \<open>num_vertices\<close> in steps of 1.\<close>

definition VSUnitLoop ::
  "('c, 'u) draw_env \<Rightarrow> bool \<Rightarrow> u32 \<Rightarrow> 'c CachedVertex list \<Rightarrow> ('c, 'u) vs_loop_state" where
  "VSUnitLoop env is_indexed batch_id cache =
     fold (VSUnitLoop_body env is_indexed batch_id) [0..<unat (num_vertices env)]
       \<lparr>vs_output = cache, shader_unit = fresh_unit env, invocations = []\<rparr>"


text \<open>
  Lines 443--465 without worker threads: what the controlling loop hands on, in
  submission order.
\<close>

datatype 'c submission = SubmitIndex u32 | GsSubmitVertex 'c | PaSubmitVertex 'c

definition consume_vertex ::
  "('c, 'u) draw_env \<Rightarrow> bool \<Rightarrow> 'c CachedVertex list \<Rightarrow> nat \<Rightarrow> 'c submission" where
  "consume_vertex env is_indexed cache index =
     (let vertex = VertexIndex env is_indexed index;
          cached_vertex = cache ! (if is_indexed then unat vertex else index);
          use_gs = (pipeline_use_gs env = Yes)
      in if use_gs \<and> is_indexed \<and> need_index_input env index then SubmitIndex vertex
         else if use_gs then GsSubmitVertex (cv_output cached_vertex)
         else PaSubmitVertex (cv_output cached_vertex))"

definition consume_vertices ::
  "('c, 'u) draw_env \<Rightarrow> bool \<Rightarrow> 'c CachedVertex list \<Rightarrow> 'c submission list" where
  "consume_vertices env is_indexed cache =
     map (consume_vertex env is_indexed cache) [0..<unat (num_vertices env)]"

text \<open>
  The case \<open>trigger_draw\<close> / \<open>trigger_draw_indexed\<close> of \<open>WritePicaReg\<close> as a whole. With
  worker threads the shading runs concurrently and only the workers pushed are
  modelled. Without them the loop runs inline; then the geometry pipeline is set up and,
  when it needs index input, the draw is asserted to be indexed (lines 432--436). A
  failed \<open>ASSERT\<close> stops the draw there, before the consumption loop: the submissions
  are \<open>None\<close>.
\<close>

datatype ('c, 'u) draw_outcome =
    Accelerated
  | SingleThreaded "('c, 'u) vs_loop_state" u32 "'c submission list option"
  | MultiThreaded "(u32 \<times> u32) list"

definition trigger_draw ::
  "('c, 'u) draw_env \<Rightarrow> bool \<Rightarrow> 'c CachedVertex list \<times> u32 \<Rightarrow> ('c, 'u) draw_outcome option" where
  "trigger_draw env is_indexed cb =
     (if takes_fast_path (hw_shader_enabled env) (assembler_is_empty env) (pipeline_use_gs env)
           (topology env) (num_vertices env) (AccelerateDrawBatch env) is_indexed
      then Some Accelerated
      else
        let (cache, batch_id) = next_batch (resize_cache env is_indexed (fst cb), snd cb)
        in case vs_threads (num_vertices env) (min_vertices_per_thread env)
                  (hardware_concurrency env) of
             None \<Rightarrow> None
           | Some threads \<Rightarrow>
               (case dispatch_vs threads of
                  Inline \<Rightarrow>
                    (let st = VSUnitLoop env is_indexed batch_id cache
                     in Some (SingleThreaded st batch_id
                                (if need_index_input_after_setup env \<and> \<not> is_indexed then None
                                 else Some (consume_vertices env is_indexed (vs_output st)))))
                | Workers ws \<Rightarrow> Some (MultiThreaded ws)))"

text \<open>
  The cache invariant between draws: there are at least \<open>0x10000\<close> entries (line 323;
  the vector only grows) and no tag is ahead of \<open>batch_id\<close>.
\<close>

definition cache_inv :: "'c CachedVertex list \<times> u32 \<Rightarrow> bool" where
  "cache_inv cb \<longleftrightarrow> 0x10000 \<le> length (fst cb) \<and> (\<forall>entry \<in> set (fst cb). cv_batch entry \<le> snd cb)"

section \<open>Program and swizzle loaders of the vertex unit\<close>

text \<open>
  The part of \<open>Shader::ShaderSetup\<close> that the cases \<open>vs.program.set_word\<close> and
  \<open>vs.swizzle_patterns.set_word\<close> touch: the two arrays and the flags that
  \<open>MarkProgramCodeDirty\<close> and \<open>MarkSwizzleDataDirty\<close> raise.
\<close>

record ShaderSetup =
  program_code :: "u32 list"
  swizzle_data :: "u32 list"
  program_code_dirty :: bool
  swizzle_data_dirty :: bool

datatype loader_event = LogErrorInvalidVSProgramOffset u32 | LogErrorInvalidVSSwizzleOffset u32

record loader_state =
  vs_setup :: ShaderSetup
  gs_setup :: ShaderSetup
  vs_program_offset :: u32
  vs_swizzle_offset :: u32
  gs_unit_exclusive_configuration :: u32
  loader_log :: "loader_event list"

text \<open>Lines 584--596: a write to one of \<open>vs.program.set_word[0..7]\<close>.\<close>

definition vs_program_set_word :: "u32 \<Rightarrow> loader_state \<Rightarrow> loader_state" where
  "vs_program_set_word val s =
     (let offset = vs_program_offset s
      in if 512 \<le> offset then s\<lparr>loader_log := loader_log s @ [LogErrorInvalidVSProgramOffset offset]\<rparr>
         else
           let vs1 = (vs_setup s)\<lparr>program_code := (program_code (vs_setup s))[unat offset := val],
                                   program_code_dirty := True\<rparr>;
               gs1 = (if gs_unit_exclusive_configuration s = 0
                      then (gs_setup s)\<lparr>program_code := (program_code (gs_setup s))[unat offset := val],
                                         program_code_dirty := True\<rparr>
                      else gs_setup s)
           in s\<lparr>vs_setup := vs1, gs_setup := gs1, vs_program_offset := offset + 1\<rparr>)"

text \<open>Lines 607--619: a write to one of \<open>vs.swizzle_patterns.set_word[0..7]\<close>.\<close>

definition vs_swizzle_set_word :: "u32 \<Rightarrow> loader_state \<Rightarrow> loader_state" where
  "vs_swizzle_set_word val s =
     (let offset = vs_swizzle_offset s
      in if length (swizzle_data (vs_setup s)) \<le> unat offset
         then s\<lparr>loader_log := loader_log s @ [LogErrorInvalidVSSwizzleOffset offset]\<rparr>
         else
           let vs1 = (vs_setup s)\<lparr>swizzle_data := (swizzle_data (vs_setup s))[unat offset := val],
                                   swizzle_data_dirty := True\<rparr>;
               gs1 = (if gs_unit_exclusive_configuration s = 0
                      then (gs_setup s)\<lparr>swizzle_data := (swizzle_data (gs_setup s))[unat offset := val],
                                         swizzle_data_dirty := True\<rparr>
                      else gs_setup s)
           in s\<lparr>vs_setup := vs1, gs_setup := gs1, vs_swizzle_offset := offset + 1\<rparr>)"

text \<open>
  The register writes that drive the two loaders: a word for the program or the swizzle
  table, or a new value for one of the two offset registers (whose cases in the switch
  are empty).
\<close>

datatype loader_write =
    ProgramSetWord u32
  | SwizzleSetWord u32
  | ProgramOffset u32
  | SwizzleOffset u32

fun loader_step :: "loader_state \<Rightarrow> loader_write \<Rightarrow> loader_state" where
  "loader_step s (ProgramSetWord val) = vs_program_set_word val s"
| "loader_step s (SwizzleSetWord val) = vs_swizzle_set_word val s"
| "loader_step s (ProgramOffset off) = s\<lparr>vs_program_offset := off\<rparr>"
| "loader_step s (SwizzleOffset off) = s\<lparr>vs_swizzle_offset := off\<rparr>"

definition loader_run :: "loader_state \<Rightarrow> loader_write list \<Rightarrow> loader_state" where
  "loader_run s ws = foldl loader_step s ws"

text \<open>The offsets at which a sequence of writes stores a program (swizzle) word.\<close>

fun program_offsets_written :: "loader_state \<Rightarrow> loader_write list \<Rightarrow> nat list" where
  "program_offsets_written s [] = []"
| "program_offsets_written s (a # ws) =
     (case a of
        ProgramSetWord val \<Rightarrow>
          (if vs_program_offset s < 512 then [unat (vs_program_offset s)] else [])
      | _ \<Rightarrow> []) @ program_offsets_written (loader_step s a) ws"

fun swizzle_offsets_written :: "loader_state \<Rightarrow> loader_write list \<Rightarrow> nat list" where
  "swizzle_offsets_written s [] = []"
| "swizzle_offsets_written s (a # ws) =
     (case a of
        SwizzleSetWord val \<Rightarrow>
          (if unat (vs_swizzle_offset s) < length (swizzle_data (vs_setup s))
           then [unat (vs_swizzle_offset s)] else [])
      | _ \<Rightarrow> []) @ swizzle_offsets_written (loader_step s a) ws"

text \<open>
  Both units are of the one type \<open>ShaderSetup\<close>, so their arrays have the same sizes,
  and the program array has room for the 512 words the vertex unit accepts.
\<close>

definition loader_wf :: "loader_state \<Rightarrow> bool" where
  "loader_wf s \<longleftrightarrow>
     length (program_code (gs_setup s)) = length (program_code (vs_setup s)) \<and>
     length (swizzle_data (gs_setup s)) = length (swizzle_data (vs_setup s)) \<and>
     512 \<le> length (program_code (vs_setup s))"

section \<open>\<open>WritePicaReg\<close> and the command list\<close>

datatype debug_event = PicaCommandLoaded | PicaCommandProcessed

datatype 'e event =
    LogErrorInvalidRegister u32 u32 u32
  | OnPicaRegWrite u16 u16 u32
  | OnEvent debug_event u32
  | NotifyPicaRegisterChanged u32
  | Collaborator 'e

text \<open>\<open>g_state.cmd_list\<close>; a pointer to \<open>u32\<close> is an integer that counts 32-bit words.\<close>

record cmd_list_t =
  head_ptr :: int
  current_ptr :: int
  cl_length :: u32

text \<open>
  The part of \<open>g_state\<close> that \<open>WritePicaReg\<close> is followed through: the register array, the
  command-list cursor, the calls observed, and everything else (\<open>rest\<close>).
\<close>

record ('x, 'e) pica_state =
  reg_array :: "u32 list"
  cmd_list :: cmd_list_t
  events :: "'e event list"
  rest :: 'x

text \<open>
  What \<open>WritePicaReg\<close> and \<open>ProcessCommandList\<close> take from their surroundings.
  \<^item> \<open>is_pica_tracing\<close>, \<open>has_debug_context\<close>: \<open>DebugUtils::IsPicaTracing()\<close> and whether
    \<open>g_debug_context\<close> is set.
  \<^item> \<open>trigger0\<close>: \<open>PICA_REG_INDEX(pipeline.command_buffer.trigger[0])\<close>; \<open>trigger[1]\<close> is
    the next element of the same array, so the next index.
  \<^item> \<open>cmd_buffer_ptr regs index\<close>: the host pointer
    \<open>GetPhysicalPointer(regs.pipeline.command_buffer.GetPhysicalAddress(index))\<close>;
    \<open>cmd_buffer_size regs index\<close>: \<open>regs.pipeline.command_buffer.GetSize(index)\<close>.
  \<^item> \<open>other_cases reg_id val regs rest\<close>: every other case of the switch (lines 137--685);
    none of them assigns \<open>g_state.cmd_list\<close>, they act on the registers and on the rest
    of the state, and their calls return.
  \<^item> \<open>memory\<close>: the words of host memory, which the walk only reads.
  \<^item> the bit fields of \<open>CommandHeader\<close>.
\<close>

record ('x, 'e) pica_env =
  is_pica_tracing :: bool
  has_debug_context :: bool
  trigger0 :: u32
  cmd_buffer_ptr :: "u32 list \<Rightarrow> u32 \<Rightarrow> int"
  cmd_buffer_size :: "u32 list \<Rightarrow> u32 \<Rightarrow> u32"
  other_cases :: "u32 \<Rightarrow> u32 \<Rightarrow> u32 list \<Rightarrow> 'x \<Rightarrow> u32 list \<times> 'x \<times> 'e list"
  memory :: "int \<Rightarrow> u32"
  cmd_id :: "u32 \<Rightarrow> u32"
  parameter_mask :: "u32 \<Rightarrow> u32"
  extra_data_length :: "u32 \<Rightarrow> u32"
  group_commands :: "u32 \<Rightarrow> bool"

text \<open>Lines 137--685: the switch.\<close>

definition dispatch_side_effects ::
  "('x, 'e) pica_env \<Rightarrow> u32 \<Rightarrow> u32 \<Rightarrow> ('x, 'e) pica_state \<Rightarrow> ('x, 'e) pica_state" where
  "dispatch_side_effects env reg_id val s =
     (if reg_id = trigger0 env \<or> reg_id = trigger0 env + 1 then
        (let index = reg_id - trigger0 env;
             head = cmd_buffer_ptr env (reg_array s) index
         in s\<lparr>cmd_list := \<lparr>head_ptr = head, current_ptr = head,
                             cl_length = cmd_buffer_size env (reg_array s) index div 4\<rparr>\<rparr>)
      else
        (let (regs', rest', evs) = other_cases env reg_id val (reg_array s) (rest s)
         in s\<lparr>reg_array := regs', rest := rest', events := events s @ map Collaborator evs\<rparr>))"

text \<open>Lines 110--692: \<open>WritePicaReg\<close>.\<close>

definition WritePicaReg ::
  "('x, 'e) pica_env \<Rightarrow> u32 \<Rightarrow> u32 \<Rightarrow> u32 \<Rightarrow> ('x, 'e) pica_state \<Rightarrow> ('x, 'e) pica_state" where
  "WritePicaReg env reg_id val pmask s =
     (if length (reg_array s) \<le> unat reg_id then
        s\<lparr>events := events s @ [LogErrorInvalidRegister reg_id val pmask]\<rparr>
      else
        let regs1 = store_reg (reg_array s) reg_id val pmask;
            traced = (if is_pica_tracing env
                      then [OnPicaRegWrite (ucast reg_id) (ucast pmask) (regs1 ! unat reg_id)]
                      else []);
            loaded = (if has_debug_context env then [OnEvent PicaCommandLoaded reg_id] else []);
            s1 = s\<lparr>reg_array := regs1, events := events s @ traced @ loaded\<rparr>;
            s2 = dispatch_side_effects env reg_id val s1;
            processed = (if has_debug_context env then [OnEvent PicaCommandProcessed reg_id] else [])
        in s2\<lparr>events := events s2 @ [NotifyPicaRegisterChanged reg_id] @ processed\<rparr>)"

text \<open>
  The remainder of C++ (\<open>%\<close>) truncates towards zero; on the difference of two pointers
  it is compared with 0 only.
\<close>

definition c_rem :: "int \<Rightarrow> int \<Rightarrow> int" where
  "c_rem a b = sgn a * (\<bar>a\<bar> mod \<bar>b\<bar>)"

text \<open>\<open>*g_state.cmd_list.current_ptr++\<close>.\<close>

definition read_word ::
  "('x, 'e) pica_env \<Rightarrow> ('x, 'e) pica_state \<Rightarrow> u32 \<times> ('x, 'e) pica_state" where
  "read_word env s =
     (memory env (current_ptr (cmd_list s)),
      s\<lparr>cmd_list := (cmd_list s)\<lparr>current_ptr := current_ptr (cmd_list s) + 1\<rparr>\<rparr>)"

text \<open>Lines 709--712: the writes of the extra data words, \<open>i\<close> from 0 below \<open>extra_data_length\<close>.\<close>

definition extra_write ::
  "('x, 'e) pica_env \<Rightarrow> u32 \<Rightarrow> nat \<Rightarrow> ('x, 'e) pica_state \<Rightarrow> ('x, 'e) pica_state" where
  "extra_write env header i s =
     (let cmd = cmd_id env header + (if group_commands env header then of_nat i + 1 else 0);
          (word, s1) = read_word env s
      in WritePicaReg env cmd word (parameter_mask env header) s1)"

text \<open>Lines 700--712: one iteration of the loop of \<open>ProcessCommandList\<close>.\<close>

definition command_iteration ::
  "('x, 'e) pica_env \<Rightarrow> ('x, 'e) pica_state \<Rightarrow> ('x, 'e) pica_state" where
  "command_iteration env s =
     (let s0 = (if c_rem (head_ptr (cmd_list s) - current_ptr (cmd_list s)) 2 \<noteq> 0
                then s\<lparr>cmd_list := (cmd_list s)\<lparr>current_ptr := current_ptr (cmd_list s) + 1\<rparr>\<rparr>
                else s);
          (val, s1) = read_word env s0;
          (header, s2) = read_word env s1;
          s3 = WritePicaReg env (cmd_id env header) val (parameter_mask env header) s2
      in fold (extra_write env header) [0..<unat (extra_data_length env header)] s3)"

text \<open>
  Lines 698--713: the loop. It need not end, so it is a partial function: \<open>None\<close> is the
  loop that runs forever.
\<close>

partial_function (option) command_loop ::
  "('x, 'e) pica_env \<Rightarrow> ('x, 'e) pica_state \<Rightarrow> ('x, 'e) pica_state option" where
  "command_loop env s =
     (if current_ptr (cmd_list s) < head_ptr (cmd_list s) + uint (cl_length (cmd_list s))
      then command_loop env (command_iteration env s)
      else Some s)"

text \<open>Lines 694--714: \<open>ProcessCommandList(list, size)\<close>.\<close>

definition ProcessCommandList ::
  "('x, 'e) pica_env \<Rightarrow> int \<Rightarrow> u32 \<Rightarrow> ('x, 'e) pica_state \<Rightarrow> ('x, 'e) pica_state option" where
  "ProcessCommandList env list_ptr size_bytes s =
     command_loop env
       (s\<lparr>cmd_list := \<lparr>head_ptr = list_ptr, current_ptr = list_ptr, cl_length = size_bytes div 4\<rparr>\<rparr>)"

text \<open>
  The header words a walk reads when no write moves the cursor: the walk from \<open>cur\<close> in
  the list \<open>head\<close>, \<open>len\<close> reads a value word, then the header, then the extra data.
\<close>

function header_positions :: "('x, 'e) pica_env \<Rightarrow> int \<Rightarrow> int \<Rightarrow> int \<Rightarrow> int list" where
  "header_positions env head len cur =
     (if cur < head + len then
        (let cur0 = (if c_rem (head - cur) 2 \<noteq> 0 then cur + 1 else cur);
             header = memory env (cur0 + 1)
         in (cur0 + 1) # header_positions env head len (cur0 + 2 + uint (extra_data_length env header)))
      else [])"
  by pat_completeness auto
termination
proof (relation "measure (\<lambda>(env, head, len, cur). nat (head + len - cur))", goal_cases)
  case 1
  show ?case by simp
next
  case (2 env head len cur cur0 header)
  have "- uint w < 2" and "- uint w < 3" for w :: u32
    using uint_ge_0 [of w] by linarith+
  with 2 show ?case by auto
qed

declare header_positions.simps [simp del]

text \<open>The registers a header word makes the walk write.\<close>

definition header_targets :: "('x, 'e) pica_env \<Rightarrow> u32 \<Rightarrow> u32 list" where
  "header_targets env header =
     cmd_id env header #
     map (\<lambda>i. cmd_id env header + (if group_commands env header then of_nat i + 1 else 0))
       [0..<unat (extra_data_length env header)]"

definition is_trigger :: "('x, 'e) pica_env \<Rightarrow> u32 \<Rightarrow> bool" where
  "is_trigger env reg_id \<longleftrightarrow> reg_id = trigger0 env \<or> reg_id = trigger0 env + 1"


definition trigger_free :: "('x, 'e) pica_env \<Rightarrow> int \<Rightarrow> u32 \<Rightarrow> bool" where
  "trigger_free env list_ptr size_bytes \<longleftrightarrow>
     (\<forall>p \<in> set (header_positions env list_ptr (uint (size_bytes div 4)) list_ptr).
        \<forall>reg_id \<in> set (header_targets env (memory env p)). \<not> is_trigger env reg_id)"

text \<open>
  A concrete environment for the walk over a given memory, with the layout of the
  hardware: the bit fields of \<open>CommandHeader\<close> are \<open>cmd_id\<close> in bits 0--15,
  \<open>parameter_mask\<close> in bits 16--19, \<open>extra_data_length\<close> in bits 20--30 and
  \<open>group_commands\<close> in bit 31; \<open>command_buffer.size[2]\<close>, \<open>addr[2]\<close> and \<open>trigger[2]\<close> are the
  registers \<open>0x238\<close> to \<open>0x23D\<close>, size and address in units of 8 bytes; host pointers are
  the physical addresses. No tracing, no debug context, and the other cases of the
  switch do nothing.
\<close>

definition walk_env :: "(int \<Rightarrow> u32) \<Rightarrow> (unit, unit) pica_env" where
  "walk_env mem =
     \<lparr>is_pica_tracing = False, has_debug_context = False, trigger0 = 0x23C,
      cmd_buffer_ptr = (\<lambda>regs index. 2 * uint (take_bit 28 (regs ! (0x23A + unat index)))),
      cmd_buffer_size = (\<lambda>regs index. 8 * take_bit 20 (regs ! (0x238 + unat index))),
      other_cases = (\<lambda>reg_id val regs x. (regs, x, [])),
      memory = mem,
      cmd_id = (\<lambda>h. h AND 0xFFFF), parameter_mask = (\<lambda>h. drop_bit 16 h AND 0xF),
      extra_data_length = (\<lambda>h. drop_bit 20 h AND 0x7FF), group_commands = (\<lambda>h. bit h 31)\<rparr>"





chapter \<open>Properties\<close>

section \<open>The register-file write (C1)\<close>

















section \<open>The float-uniform loader (C2, C6, C10)\<close>

lemma low_mask_values:
  "(0xFF :: u32) = mask 8" "(0xFFFF :: u32) = mask 16" "(0xFFFFFF :: u32) = mask 24"
  by (simp_all add: mask_eq_exp_minus_1)

lemma packed_w_bits: "packed_w buf = bits (buf ! 0) 31 8"
  by (rule bit_eqI) (auto simp: packed_w_def bits_def bit_simps dest: bit_imp_le_length)

lemma packed_z_bits: "packed_z buf = cat (bits (buf ! 0) 7 0) 16 (bits (buf ! 1) 31 16)"
  by (rule bit_eqI)
    (auto simp: packed_z_def bits_def cat_def low_mask_values bit_simps dest: bit_imp_le_length)

lemma packed_y_bits: "packed_y buf = cat (bits (buf ! 1) 15 0) 8 (bits (buf ! 2) 31 24)"
  by (rule bit_eqI)
    (auto simp: packed_y_def bits_def cat_def low_mask_values bit_simps dest: bit_imp_le_length)

lemma packed_x_bits: "packed_x buf = bits (buf ! 2) 23 0"
  by (rule bit_eqI) (auto simp: packed_x_def bits_def low_mask_values bit_simps)

lemma reversed_components:
  "fold (\<lambda>i u. vec4_set (3 - i) (F (buf ! i)) u) [0, 1, 2, 3] u0
     = Vec4 (F (buf ! 3)) (F (buf ! 2)) (F (buf ! 1)) (F (buf ! 0))"
  by (cases u0) (simp add: numeral_3_eq_3 numeral_2_eq_2)

text \<open>The three ways a write ends: it only stages, it flushes, or its flush is rejected.\<close>

lemma staged_only:
  assumes "unit_wf s" "\<not> flushes s"
  shows "WriteUniformFloatReg F R s v =
           Some (s\<lparr>uniform_write_buffer := (uniform_write_buffer s)[nat (float_regs_counter s) := v],
                   float_regs_counter := float_regs_counter s + 1\<rparr>)"
proof -
  from assms(1) have c: "\<not> float_regs_counter s < 0" "\<not> 4 \<le> float_regs_counter s"
    by (simp_all add: unit_wf_def)
  from assms(2) have f: "\<not> ((4 \<le> float_regs_counter s + 1 \<and> us_float32 s) \<or>
      (3 \<le> float_regs_counter s + 1 \<and> \<not> us_float32 s))"
    by (simp add: flushes_def)
  show ?thesis
    unfolding WriteUniformFloatReg_def Let_def
    by (simp only: c f if_True if_False simp_thms)
qed

lemma flush_accepted:
  assumes "unit_wf s" "flushes s" "us_index s < 96"
  shows "WriteUniformFloatReg F R s v =
           Some (s\<lparr>uniform_write_buffer := (uniform_write_buffer s)[nat (float_regs_counter s) := v],
                   float_regs_counter := 0,
                   uniforms_f := (uniforms_f s)[unat (us_index s) :=
                      (if us_float32 s
                       then fold (\<lambda>i u. vec4_set (3 - i)
                              (F ((uniform_write_buffer s)[nat (float_regs_counter s) := v] ! i)) u)
                              [0, 1, 2, 3] (uniforms_f s ! unat (us_index s))
                       else Vec4 (R (packed_x ((uniform_write_buffer s)[nat (float_regs_counter s) := v])))
                                 (R (packed_y ((uniform_write_buffer s)[nat (float_regs_counter s) := v])))
                                 (R (packed_z ((uniform_write_buffer s)[nat (float_regs_counter s) := v])))
                                 (R (packed_w ((uniform_write_buffer s)[nat (float_regs_counter s) := v]))))],
                   uf_log := uf_log s @ [LogTraceSetFloatUniform (us_index s)
                      (if us_float32 s
                       then fold (\<lambda>i u. vec4_set (3 - i)
                              (F ((uniform_write_buffer s)[nat (float_regs_counter s) := v] ! i)) u)
                              [0, 1, 2, 3] (uniforms_f s ! unat (us_index s))
                       else Vec4 (R (packed_x ((uniform_write_buffer s)[nat (float_regs_counter s) := v])))
                                 (R (packed_y ((uniform_write_buffer s)[nat (float_regs_counter s) := v])))
                                 (R (packed_z ((uniform_write_buffer s)[nat (float_regs_counter s) := v])))
                                 (R (packed_w ((uniform_write_buffer s)[nat (float_regs_counter s) := v]))))],
                   us_index := us_index s + 1\<rparr>)"
proof -
  from assms(1) have c: "\<not> float_regs_counter s < 0" "\<not> 4 \<le> float_regs_counter s"
    by (simp_all add: unit_wf_def)
  from assms(2) have f: "(4 \<le> float_regs_counter s + 1 \<and> us_float32 s) \<or>
      (3 \<le> float_regs_counter s + 1 \<and> \<not> us_float32 s)"
    by (simp add: flushes_def)
  from assms(3) have i: "\<not> 96 \<le> us_index s" by (simp add: not_le)
  show ?thesis
    unfolding WriteUniformFloatReg_def Let_def
    apply (simp only: c f i if_True if_False simp_thms)
    apply simp
    done
qed

lemma flush_rejected:
  assumes "unit_wf s" "flushes s" "96 \<le> us_index s"
  shows "WriteUniformFloatReg F R s v =
           Some (s\<lparr>uniform_write_buffer := (uniform_write_buffer s)[nat (float_regs_counter s) := v],
                   float_regs_counter := 0,
                   uf_log := uf_log s @ [LogErrorInvalidFloatUniformIndex (us_index s)]\<rparr>)"
proof -
  from assms(1) have c: "\<not> float_regs_counter s < 0" "\<not> 4 \<le> float_regs_counter s"
    by (simp_all add: unit_wf_def)
  from assms(2) have f: "(4 \<le> float_regs_counter s + 1 \<and> us_float32 s) \<or>
      (3 \<le> float_regs_counter s + 1 \<and> \<not> us_float32 s)"
    by (simp add: flushes_def)
  show ?thesis
    unfolding WriteUniformFloatReg_def Let_def
    apply (simp only: c f assms(3) if_True if_False simp_thms)
    apply simp
    done
qed

text \<open>
  C2. When a write makes the staging buffer reach its flush threshold and the
  destination index is below 96, the destination vector is decoded as follows. In
  32-bit mode component \<open>3 - i\<close> is \<open>FromFloat32\<close> of staged word \<open>i\<close>, for \<open>i\<close> from 0
  to 3. In packed mode \<open>w\<close> is bits 31..8 of word 0, \<open>z\<close> is bits 7..0 of word 0 followed
  by bits 31..16 of word 1, \<open>y\<close> is bits 15..0 of word 1 followed by bits 31..24 of word
  2, and \<open>x\<close> is bits 23..0 of word 2, each read by \<open>FromRaw\<close>.
\<close>

theorem float_uniform_decode:
  assumes "unit_wf s" and "flushes s" and "us_index s < 96"
  shows "\<exists>s'. WriteUniformFloatReg F R s v = Some s' \<and>
           (us_float32 s \<longrightarrow>
              (\<forall>i<4. vec4_get (uniforms_f s' ! unat (us_index s)) (3 - i)
                        = F ((uniform_write_buffer s)[nat (float_regs_counter s) := v] ! i))) \<and>
           (\<not> us_float32 s \<longrightarrow>
              uniforms_f s' ! unat (us_index s) =
                Vec4 (R (bits ((uniform_write_buffer s)[nat (float_regs_counter s) := v] ! 2) 23 0))
                     (R (cat (bits ((uniform_write_buffer s)[nat (float_regs_counter s) := v] ! 1) 15 0) 8
                             (bits ((uniform_write_buffer s)[nat (float_regs_counter s) := v] ! 2) 31 24)))
                     (R (cat (bits ((uniform_write_buffer s)[nat (float_regs_counter s) := v] ! 0) 7 0) 16
                             (bits ((uniform_write_buffer s)[nat (float_regs_counter s) := v] ! 1) 31 16)))
                     (R (bits ((uniform_write_buffer s)[nat (float_regs_counter s) := v] ! 0) 31 8)))"
proof -
  let ?buf = "(uniform_write_buffer s)[nat (float_regs_counter s) := v]"
  from assms(3) have "unat (us_index s) < 96" by (simp add: word_less_nat_alt)
  with assms(1) have len: "unat (us_index s) < length (uniforms_f s)" by (simp add: unit_wf_def)
  have get: "\<forall>i<4. vec4_get (Vec4 (F (?buf ! 3)) (F (?buf ! 2)) (F (?buf ! 1)) (F (?buf ! 0))) (3 - i)
      = F (?buf ! i)"
  proof (intro allI impI)
    fix i :: nat
    assume "i < 4"
    then have "i = 0 \<or> i = 1 \<or> i = 2 \<or> i = 3" by arith
    then show "vec4_get (Vec4 (F (?buf ! 3)) (F (?buf ! 2)) (F (?buf ! 1)) (F (?buf ! 0))) (3 - i)
      = F (?buf ! i)"
      by (auto simp: numeral_3_eq_3 numeral_2_eq_2)
  qed
  show ?thesis
    unfolding flush_accepted [OF assms] reversed_components
    using len get
    by (simp add: packed_w_bits packed_x_bits packed_y_bits packed_z_bits)
qed

theorem float_uniform_decode_witness:
  "unit_wf \<lparr>us_index = 5, us_float32 = False, uniforms_f = replicate 96 (Vec4 0 0 0 (0 :: u32)),
            float_regs_counter = 2, uniform_write_buffer = [0x11223344, 0x55667788, 0, 0],
            uf_log = []\<rparr>
   \<and> flushes \<lparr>us_index = 5, us_float32 = False, uniforms_f = replicate 96 (Vec4 0 0 0 (0 :: u32)),
            float_regs_counter = 2, uniform_write_buffer = [0x11223344, 0x55667788, 0, 0],
            uf_log = []\<rparr>
   \<and> (5 :: u32) < 96
   \<and> (\<exists>s'. WriteUniformFloatReg (\<lambda>w. w) (\<lambda>w. w)
              \<lparr>us_index = 5, us_float32 = False, uniforms_f = replicate 96 (Vec4 0 0 0 (0 :: u32)),
               float_regs_counter = 2, uniform_write_buffer = [0x11223344, 0x55667788, 0, 0],
               uf_log = []\<rparr> 0x99AABBCC = Some s'
            \<and> uniforms_f s' ! 5 = Vec4 0xAABBCC 0x778899 0x445566 0x112233)"
proof -
  let ?s = "\<lparr>us_index = 5, us_float32 = False, uniforms_f = replicate 96 (Vec4 0 0 0 (0 :: u32)),
            float_regs_counter = 2, uniform_write_buffer = [0x11223344, 0x55667788, 0, 0],
            uf_log = []\<rparr>"
  have h1: "unit_wf ?s" by (simp add: unit_wf_def)
  have h2: "flushes ?s" by (simp add: flushes_def)
  have h3: "us_index ?s < 96" by simp
  have b: "bits 0x99AABBCC 23 0 = 0xAABBCC" "bits 0x55667788 15 0 = 0x7788"
    "bits 0x99AABBCC 31 24 = 0x99" "bits 0x11223344 7 0 = 0x44" "bits 0x55667788 31 16 = 0x5566"
    "bits 0x11223344 31 8 = 0x112233" "cat 0x7788 8 0x99 = 0x778899" "cat 0x44 16 0x5566 = 0x445566"
    by (simp_all add: bits_def cat_def)
  from float_uniform_decode [OF h1 h2 h3, of "\<lambda>w. w" "\<lambda>w. w" "0x99AABBCC"]
  obtain s' where "WriteUniformFloatReg (\<lambda>w. w) (\<lambda>w. w) ?s 0x99AABBCC = Some s'"
    and "uniforms_f s' ! 5 = Vec4 0xAABBCC 0x778899 0x445566 0x112233"
    by (auto simp: b)
  with h1 h2 show ?thesis by simp
qed

lemma unit_wf_staged:
  assumes "unit_wf s" "\<not> flushes s"
  shows "unit_wf (s\<lparr>uniform_write_buffer := (uniform_write_buffer s)[nat (float_regs_counter s) := v],
                    float_regs_counter := float_regs_counter s + 1\<rparr>)"
  using assms by (auto simp: unit_wf_def flushes_def split: if_splits)

lemma option_case_self: "(case r of None \<Rightarrow> None | Some y \<Rightarrow> Some y) = r"
  by (cases r) simp_all

text \<open>
  A whole vector, written to a unit whose counter is 0: the first words are staged and
  the last one flushes.
\<close>

lemma write_vector:
  assumes "unit_wf s" and "float_regs_counter s = 0" and "length ws = words_per_vector s"
  shows "\<exists>t v. unit_wf t \<and> flushes t \<and>
           us_index t = us_index s \<and> us_float32 t = us_float32 s \<and>
           uniforms_f t = uniforms_f s \<and> uf_log t = uf_log s \<and>
           WriteUniformFloatRegs F R s ws = WriteUniformFloatReg F R t v"
proof (cases "us_float32 s")
  case True
  with assms(3) obtain a b c d where ws: "ws = [a, b, c, d]"
    by (auto simp: words_per_vector_def length_Suc_conv numeral_eq_Suc)
  let ?s1 = "s\<lparr>uniform_write_buffer := (uniform_write_buffer s)[nat (float_regs_counter s) := a],
               float_regs_counter := float_regs_counter s + 1\<rparr>"
  let ?s2 = "?s1\<lparr>uniform_write_buffer := (uniform_write_buffer ?s1)[nat (float_regs_counter ?s1) := b],
               float_regs_counter := float_regs_counter ?s1 + 1\<rparr>"
  let ?s3 = "?s2\<lparr>uniform_write_buffer := (uniform_write_buffer ?s2)[nat (float_regs_counter ?s2) := c],
               float_regs_counter := float_regs_counter ?s2 + 1\<rparr>"
  have n0: "\<not> flushes s" using assms(2) True by (simp add: flushes_def)
  have w1: "unit_wf ?s1" using assms(1) n0 by (rule unit_wf_staged)
  have n1: "\<not> flushes ?s1" using assms(2) True by (simp add: flushes_def)
  have w2: "unit_wf ?s2" using w1 n1 by (rule unit_wf_staged)
  have n2: "\<not> flushes ?s2" using assms(2) True by (simp add: flushes_def)
  have w3: "unit_wf ?s3" using w2 n2 by (rule unit_wf_staged)
  have f3: "flushes ?s3" using assms(2) True by (simp add: flushes_def)
  have "WriteUniformFloatRegs F R s ws = WriteUniformFloatReg F R ?s3 d"
    unfolding ws
    by (simp only: WriteUniformFloatRegs.simps option.case option_case_self
          staged_only [OF assms(1) n0] staged_only [OF w1 n1] staged_only [OF w2 n2])
  then show ?thesis using w3 f3 by (intro exI [of _ ?s3] exI [of _ d]) simp
next
  case False
  with assms(3) obtain a b c where ws: "ws = [a, b, c]"
    by (auto simp: words_per_vector_def length_Suc_conv numeral_eq_Suc)
  let ?s1 = "s\<lparr>uniform_write_buffer := (uniform_write_buffer s)[nat (float_regs_counter s) := a],
               float_regs_counter := float_regs_counter s + 1\<rparr>"
  let ?s2 = "?s1\<lparr>uniform_write_buffer := (uniform_write_buffer ?s1)[nat (float_regs_counter ?s1) := b],
               float_regs_counter := float_regs_counter ?s1 + 1\<rparr>"
  have n0: "\<not> flushes s" using assms(2) False by (simp add: flushes_def)
  have w1: "unit_wf ?s1" using assms(1) n0 by (rule unit_wf_staged)
  have n1: "\<not> flushes ?s1" using assms(2) False by (simp add: flushes_def)
  have w2: "unit_wf ?s2" using w1 n1 by (rule unit_wf_staged)
  have f2: "flushes ?s2" using assms(2) False by (simp add: flushes_def)
  have "WriteUniformFloatRegs F R s ws = WriteUniformFloatReg F R ?s2 c"
    unfolding ws
    by (simp only: WriteUniformFloatRegs.simps option.case option_case_self
          staged_only [OF assms(1) n0] staged_only [OF w1 n1])
  then show ?thesis using w2 f2 by (intro exI [of _ ?s2] exI [of _ c]) simp
qed

lemma vector_accepted:
  assumes "unit_wf s" and "float_regs_counter s = 0" and "length ws = words_per_vector s"
    and "us_index s < 96"
  shows "\<exists>s'. WriteUniformFloatRegs F R s ws = Some s' \<and> unit_wf s' \<and>
           float_regs_counter s' = 0 \<and> us_index s' = us_index s + 1 \<and>
           us_float32 s' = us_float32 s"
proof -
  from write_vector [OF assms(1-3), of F R] obtain t v where
    t: "unit_wf t" "flushes t" "us_index t = us_index s" "us_float32 t = us_float32 s"
    and run: "WriteUniformFloatRegs F R s ws = WriteUniformFloatReg F R t v"
    by blast
  from t(3) assms(4) have "us_index t < 96" by simp
  from flush_accepted [OF t(1) t(2) this, of F R v] t(1) t(3) t(4) show ?thesis
    unfolding run by (simp add: unit_wf_def)
qed

lemma vector_rejected:
  assumes "unit_wf s" and "float_regs_counter s = 0" and "length ws = words_per_vector s"
    and "96 \<le> us_index s"
  shows "\<exists>s'. WriteUniformFloatRegs F R s ws = Some s' \<and> uniforms_f s' = uniforms_f s \<and>
           us_index s' = us_index s \<and> float_regs_counter s' = 0 \<and>
           uf_log s' = uf_log s @ [LogErrorInvalidFloatUniformIndex (us_index s)]"
proof -
  from write_vector [OF assms(1-3), of F R] obtain t v where
    t: "unit_wf t" "flushes t" "us_index t = us_index s" "uniforms_f t = uniforms_f s"
       "uf_log t = uf_log s"
    and run: "WriteUniformFloatRegs F R s ws = WriteUniformFloatReg F R t v"
    by blast
  from t(3) assms(4) have "96 \<le> us_index t" by simp
  from flush_rejected [OF t(1) t(2) this, of F R v] t(3) t(4) t(5) show ?thesis
    unfolding run by simp
qed

lemma WriteUniformFloatRegs_append:
  "WriteUniformFloatRegs F R s (xs @ ys) =
     (case WriteUniformFloatRegs F R s xs of
        None \<Rightarrow> None
      | Some s' \<Rightarrow> WriteUniformFloatRegs F R s' ys)"
  by (induction xs arbitrary: s) (simp_all split: option.split)

lemma many_vectors:
  assumes "unit_wf s" and "float_regs_counter s = 0"
    and "unat (us_index s) + n \<le> 96" and "length ws = n * words_per_vector s"
  shows "\<exists>s'. WriteUniformFloatRegs F R s ws = Some s' \<and> unit_wf s' \<and>
           float_regs_counter s' = 0 \<and> unat (us_index s') = unat (us_index s) + n \<and>
           us_float32 s' = us_float32 s"
  using assms
proof (induction n arbitrary: s ws)
  case 0
  then show ?case by simp
next
  case (Suc n)
  let ?k = "words_per_vector s"
  have len: "length (take ?k ws) = ?k" "length (drop ?k ws) = n * ?k"
    using Suc.prems(4) by simp_all
  from Suc.prems(3) have "unat (us_index s) < 96" by simp
  then have lt: "us_index s < 96" by (simp add: word_less_nat_alt)
  from vector_accepted [OF Suc.prems(1) Suc.prems(2) len(1) lt, of F R]
  obtain s1 where s1: "WriteUniformFloatRegs F R s (take ?k ws) = Some s1" "unit_wf s1"
    "float_regs_counter s1 = 0" "us_index s1 = us_index s + 1" "us_float32 s1 = us_float32 s"
    by blast
  from \<open>unat (us_index s) < 96\<close> s1(4) have idx: "unat (us_index s1) = unat (us_index s) + 1"
    by (simp add: unat_word_ariths)
  have k1: "words_per_vector s1 = ?k" using s1(5) by (simp add: words_per_vector_def)
  from Suc.IH [of s1 "drop ?k ws"] s1(2) s1(3) idx Suc.prems(3) len(2) k1
  obtain s' where s': "WriteUniformFloatRegs F R s1 (drop ?k ws) = Some s'" "unit_wf s'"
    "float_regs_counter s' = 0" "unat (us_index s') = unat (us_index s1) + n"
    "us_float32 s' = us_float32 s1"
    by auto
  have "WriteUniformFloatRegs F R s ws = WriteUniformFloatRegs F R s (take ?k ws @ drop ?k ws)"
    by simp
  also have "\<dots> = Some s'"
    unfolding WriteUniformFloatRegs_append using s1(1) s'(1) by simp
  finally show ?case using s' s1(5) idx by simp
qed

text \<open>
  C6. A successful flush (index below 96) increments the destination index by exactly
  1. A flush at an index of 96 or more is rejected: it logs the error, leaves every
  uniform slot as it was and does not change the index. From index 0 and an empty
  staging buffer, 96 vectors are flushed successfully and leave the index at 96; the
  97th vector is rejected, is logged, changes no slot, and the index remains 96.
\<close>

theorem float_uniform_index:
  assumes "unit_wf s"
  shows "(flushes s \<and> us_index s < 96 \<longrightarrow>
            (\<exists>s'. WriteUniformFloatReg F R s v = Some s' \<and> us_index s' = us_index s + 1 \<and>
                  unat (us_index s') = unat (us_index s) + 1))
       \<and> (flushes s \<and> 96 \<le> us_index s \<longrightarrow>
            (\<exists>s'. WriteUniformFloatReg F R s v = Some s' \<and> uniforms_f s' = uniforms_f s \<and>
                  us_index s' = us_index s \<and>
                  uf_log s' = uf_log s @ [LogErrorInvalidFloatUniformIndex (us_index s)]))
       \<and> (us_index s = 0 \<and> float_regs_counter s = 0 \<and>
          length ws = 96 * words_per_vector s \<and> length ws' = words_per_vector s \<longrightarrow>
            (\<exists>s1 s2. WriteUniformFloatRegs F R s ws = Some s1 \<and> us_index s1 = 96 \<and>
                  WriteUniformFloatRegs F R s1 ws' = Some s2 \<and> uniforms_f s2 = uniforms_f s1 \<and>
                  us_index s2 = 96 \<and>
                  uf_log s2 = uf_log s1 @ [LogErrorInvalidFloatUniformIndex 96]))"
proof (intro conjI impI)
  assume a: "flushes s \<and> us_index s < 96"
  then have "unat (us_index s) < 96" by (simp add: word_less_nat_alt)
  then have "unat (us_index s + 1) = unat (us_index s) + 1" by (simp add: unat_word_ariths)
  then show "\<exists>s'. WriteUniformFloatReg F R s v = Some s' \<and> us_index s' = us_index s + 1 \<and>
                  unat (us_index s') = unat (us_index s) + 1"
    using flush_accepted [OF assms, of F R v] a by simp
next
  assume a: "flushes s \<and> 96 \<le> us_index s"
  then show "\<exists>s'. WriteUniformFloatReg F R s v = Some s' \<and> uniforms_f s' = uniforms_f s \<and>
                  us_index s' = us_index s \<and>
                  uf_log s' = uf_log s @ [LogErrorInvalidFloatUniformIndex (us_index s)]"
    using flush_rejected [OF assms, of F R v] by simp
next
  assume a: "us_index s = 0 \<and> float_regs_counter s = 0 \<and>
          length ws = 96 * words_per_vector s \<and> length ws' = words_per_vector s"
  then have "unat (us_index s) + 96 \<le> 96" by simp
  from many_vectors [OF assms _ this, of ws F R] a
  obtain s1 where s1: "WriteUniformFloatRegs F R s ws = Some s1" "unit_wf s1"
    "float_regs_counter s1 = 0" "unat (us_index s1) = 96" "us_float32 s1 = us_float32 s"
    by auto
  have "us_index s1 = of_nat (unat (us_index s1))" by simp
  with s1(4) have i96: "us_index s1 = 96" by simp
  have k1: "length ws' = words_per_vector s1" using a s1(5) by (simp add: words_per_vector_def)
  have "96 \<le> us_index s1" using i96 by simp
  from vector_rejected [OF s1(2) s1(3) k1 this, of F R] i96 s1(1)
  show "\<exists>s1 s2. WriteUniformFloatRegs F R s ws = Some s1 \<and> us_index s1 = 96 \<and>
                  WriteUniformFloatRegs F R s1 ws' = Some s2 \<and> uniforms_f s2 = uniforms_f s1 \<and>
                  us_index s2 = 96 \<and>
                  uf_log s2 = uf_log s1 @ [LogErrorInvalidFloatUniformIndex 96]"
    by auto
qed

theorem float_uniform_index_witness:
  "unit_wf \<lparr>us_index = 0, us_float32 = False, uniforms_f = replicate 96 (Vec4 0 0 0 (0 :: u32)),
            float_regs_counter = 0, uniform_write_buffer = [0, 0, 0, 0], uf_log = []\<rparr>
   \<and> length (replicate 288 (7 :: u32)) = 96 * words_per_vector
         \<lparr>us_index = 0, us_float32 = False, uniforms_f = replicate 96 (Vec4 0 0 0 (0 :: u32)),
          float_regs_counter = 0, uniform_write_buffer = [0, 0, 0, 0], uf_log = []\<rparr>
   \<and> (\<exists>s1 s2. WriteUniformFloatRegs (\<lambda>w. w) (\<lambda>w. w)
           \<lparr>us_index = 0, us_float32 = False, uniforms_f = replicate 96 (Vec4 0 0 0 (0 :: u32)),
            float_regs_counter = 0, uniform_write_buffer = [0, 0, 0, 0], uf_log = []\<rparr>
           (replicate 288 7) = Some s1 \<and> us_index s1 = 96 \<and>
         WriteUniformFloatRegs (\<lambda>w. w) (\<lambda>w. w) s1 [1, 2, 3] = Some s2 \<and>
         uniforms_f s2 = uniforms_f s1 \<and> us_index s2 = 96 \<and>
         uf_log s2 = uf_log s1 @ [LogErrorInvalidFloatUniformIndex 96])
   \<and> unit_wf \<lparr>us_index = 5, us_float32 = True, uniforms_f = replicate 96 (Vec4 0 0 0 (0 :: u32)),
            float_regs_counter = 3, uniform_write_buffer = [1, 2, 3, 0], uf_log = []\<rparr>
   \<and> flushes \<lparr>us_index = 5, us_float32 = True, uniforms_f = replicate 96 (Vec4 0 0 0 (0 :: u32)),
            float_regs_counter = 3, uniform_write_buffer = [1, 2, 3, 0], uf_log = []\<rparr>
   \<and> (\<exists>s'. WriteUniformFloatReg (\<lambda>w. w) (\<lambda>w. w)
           \<lparr>us_index = 5, us_float32 = True, uniforms_f = replicate 96 (Vec4 0 0 0 (0 :: u32)),
            float_regs_counter = 3, uniform_write_buffer = [1, 2, 3, 0], uf_log = []\<rparr> 4 = Some s'
         \<and> us_index s' = 6)"
proof -
  let ?s = "\<lparr>us_index = 0, us_float32 = False, uniforms_f = replicate 96 (Vec4 0 0 0 (0 :: u32)),
            float_regs_counter = 0, uniform_write_buffer = [0, 0, 0, 0], uf_log = []\<rparr>"
  let ?t = "\<lparr>us_index = 5, us_float32 = True, uniforms_f = replicate 96 (Vec4 0 0 0 (0 :: u32)),
            float_regs_counter = 3, uniform_write_buffer = [1, 2, 3, 0], uf_log = []\<rparr>"
  have s: "unit_wf ?s" by (simp add: unit_wf_def)
  have l: "length (replicate 288 (7 :: u32)) = 96 * words_per_vector ?s"
    "length [1, 2, 3 :: u32] = words_per_vector ?s"
    by (simp_all add: words_per_vector_def)
  have t: "unit_wf ?t" by (simp add: unit_wf_def)
  have f: "flushes ?t" by (simp add: flushes_def)
  from float_uniform_index [OF s, of "\<lambda>w. w" "\<lambda>w. w" 0 "replicate 288 7" "[1, 2, 3]"] l
  have a: "\<exists>s1 s2. WriteUniformFloatRegs (\<lambda>w. w) (\<lambda>w. w) ?s (replicate 288 7) = Some s1 \<and>
         us_index s1 = 96 \<and>
         WriteUniformFloatRegs (\<lambda>w. w) (\<lambda>w. w) s1 [1, 2, 3] = Some s2 \<and>
         uniforms_f s2 = uniforms_f s1 \<and> us_index s2 = 96 \<and>
         uf_log s2 = uf_log s1 @ [LogErrorInvalidFloatUniformIndex 96]"
    by simp
  from float_uniform_index [OF t, of "\<lambda>w. w" "\<lambda>w. w" 4 "[]" "[]"] f
  have b: "\<exists>s'. WriteUniformFloatReg (\<lambda>w. w) (\<lambda>w. w) ?t 4 = Some s' \<and> us_index s' = 6"
    by auto
  from s l(1) a t f b show ?thesis by blast
qed

text \<open>
  C10. When a flush is rejected because the destination index is 96 or more, the
  counter is 0 afterwards, and the destination index and every uniform slot are as
  before; the staged words are not retried: the next write is staged at slot 0 of the
  buffer and flushes nothing.
\<close>

theorem rejected_flush_discards:
  assumes "unit_wf s" and "flushes s" and "96 \<le> us_index s"
  shows "\<exists>s'. WriteUniformFloatReg F R s v = Some s' \<and>
           float_regs_counter s' = 0 \<and> us_index s' = us_index s \<and>
           uniforms_f s' = uniforms_f s \<and> us_float32 s' = us_float32 s \<and>
           uniform_write_buffer s' = (uniform_write_buffer s)[nat (float_regs_counter s) := v] \<and>
           (\<forall>v2. WriteUniformFloatReg F R s' v2 =
                    Some (s'\<lparr>uniform_write_buffer := (uniform_write_buffer s')[0 := v2],
                             float_regs_counter := 1\<rparr>))"
proof -
  let ?s' = "s\<lparr>uniform_write_buffer := (uniform_write_buffer s)[nat (float_regs_counter s) := v],
               float_regs_counter := 0,
               uf_log := uf_log s @ [LogErrorInvalidFloatUniformIndex (us_index s)]\<rparr>"
  have w: "unit_wf ?s'" using assms(1) by (simp add: unit_wf_def)
  have n: "\<not> flushes ?s'" by (simp add: flushes_def)
  have "WriteUniformFloatReg F R ?s' v2 =
          Some (?s'\<lparr>uniform_write_buffer := (uniform_write_buffer ?s')[0 := v2],
                     float_regs_counter := 1\<rparr>)" for v2
    using staged_only [OF w n, of F R v2] by simp
  then show ?thesis
    unfolding flush_rejected [OF assms] by simp
qed

theorem rejected_flush_discards_witness:
  "unit_wf \<lparr>us_index = 96, us_float32 = False, uniforms_f = replicate 96 (Vec4 0 0 0 (0 :: u32)),
            float_regs_counter = 2, uniform_write_buffer = [1, 2, 0, 0], uf_log = []\<rparr>
   \<and> flushes \<lparr>us_index = 96, us_float32 = False, uniforms_f = replicate 96 (Vec4 0 0 0 (0 :: u32)),
            float_regs_counter = 2, uniform_write_buffer = [1, 2, 0, 0], uf_log = []\<rparr>
   \<and> (96 :: u32) \<le> 96
   \<and> (\<exists>s'. WriteUniformFloatReg (\<lambda>w. w) (\<lambda>w. w)
           \<lparr>us_index = 96, us_float32 = False, uniforms_f = replicate 96 (Vec4 0 0 0 (0 :: u32)),
            float_regs_counter = 2, uniform_write_buffer = [1, 2, 0, 0], uf_log = []\<rparr> 3 = Some s'
         \<and> float_regs_counter s' = 0 \<and> us_index s' = 96
         \<and> uniforms_f s' = replicate 96 (Vec4 0 0 0 0)
         \<and> uniform_write_buffer s' = [1, 2, 3, 0])"
proof -
  let ?s = "\<lparr>us_index = 96, us_float32 = False, uniforms_f = replicate 96 (Vec4 0 0 0 (0 :: u32)),
            float_regs_counter = 2, uniform_write_buffer = [1, 2, 0, 0], uf_log = []\<rparr>"
  have h1: "unit_wf ?s" by (simp add: unit_wf_def)
  have h2: "flushes ?s" by (simp add: flushes_def)
  have h3: "96 \<le> us_index ?s" by simp
  from rejected_flush_discards [OF h1 h2 h3, of "\<lambda>w. w" "\<lambda>w. w" 3]
  have "\<exists>s'. WriteUniformFloatReg (\<lambda>w. w) (\<lambda>w. w) ?s 3 = Some s'
         \<and> float_regs_counter s' = 0 \<and> us_index s' = 96
         \<and> uniforms_f s' = replicate 96 (Vec4 0 0 0 0)
         \<and> uniform_write_buffer s' = [1, 2, 3, 0]"
    by auto
  with h1 h2 show ?thesis by simp
qed

section \<open>The draw trigger: worker count and fast path (C3, C4)\<close>







lemma takes_fast_path_iff:
  "takes_fast_path hw_shader is_empty use_gs topo n accelerate_batch is_indexed \<longleftrightarrow>
     hw_shader \<and> is_empty \<and> use_gs = No \<and> (topo = Shader \<or> topo = List \<longrightarrow> n mod 3 = 0) \<and>
     accelerate_batch is_indexed"
  by (cases topo; cases use_gs) (auto simp: takes_fast_path_def accelerate_draw_def)

text \<open>The claim as stated fails for a strip: four vertices are not a multiple of 3, and
  the fast path is taken.\<close>

theorem fast_path_counterexample:
  "trigger_draw
     \<lparr>hw_shader_enabled = True, assembler_is_empty = True, topology = Strip,
      pipeline_use_gs = No, num_vertices = 4, vertex_offset = 0, index_u16 = False,
      index_address_8 = (\<lambda>i. 0), index_address_16 = (\<lambda>i. 0),
      AccelerateDrawBatch = (\<lambda>is_indexed. True), min_vertices_per_thread = 10,
      hardware_concurrency = 4, need_index_input = (\<lambda>i. False),
      need_index_input_after_setup = False,
      shade = (\<lambda>u i v c. (u, c)), fresh_unit = (), fresh_output = (),
      resize_reallocates = False\<rparr> False ([], 0) = Some Accelerated
   \<and> takes_fast_path True True No Strip 4 (\<lambda>is_indexed. True) False
   \<and> (4 :: u32) mod 3 \<noteq> 0"
  by (simp add: trigger_draw_def takes_fast_path_def accelerate_draw_def)

text \<open>
  C4 (amended). A draw trigger takes the hardware-accelerated fast path, skipping the
  software vertex pipeline, only when the primitive assembler holds no pending
  vertices, the geometry shader is disabled, for the shader-driven and the list
  topology \<open>num_vertices\<close> is divisible by 3, and \<open>AccelerateDrawBatch(is_indexed)\<close>
  returns true.
\<close>

theorem fast_path_only_when:
  assumes "trigger_draw env is_indexed cb = Some Accelerated"
  shows "takes_fast_path (hw_shader_enabled env) (assembler_is_empty env) (pipeline_use_gs env)
           (topology env) (num_vertices env) (AccelerateDrawBatch env) is_indexed
       \<and> assembler_is_empty env \<and> pipeline_use_gs env = No
       \<and> (topology env = Shader \<or> topology env = List \<longrightarrow> num_vertices env mod 3 = 0)
       \<and> AccelerateDrawBatch env is_indexed"
proof -
  have "takes_fast_path (hw_shader_enabled env) (assembler_is_empty env) (pipeline_use_gs env)
           (topology env) (num_vertices env) (AccelerateDrawBatch env) is_indexed"
    using assms
    by (auto simp: trigger_draw_def dispatch_vs_def Let_def split: if_splits prod.splits option.splits)
  then show ?thesis by (simp add: takes_fast_path_iff)
qed

theorem fast_path_only_when_witness:
  "trigger_draw
     \<lparr>hw_shader_enabled = True, assembler_is_empty = True, topology = List,
      pipeline_use_gs = No, num_vertices = 6, vertex_offset = 0, index_u16 = False,
      index_address_8 = (\<lambda>i. 0), index_address_16 = (\<lambda>i. 0),
      AccelerateDrawBatch = (\<lambda>is_indexed. True), min_vertices_per_thread = 10,
      hardware_concurrency = 4, need_index_input = (\<lambda>i. False),
      need_index_input_after_setup = False,
      shade = (\<lambda>u i v c. (u, c)), fresh_unit = (), fresh_output = (),
      resize_reallocates = False\<rparr> False ([], 0) = Some Accelerated
   \<and> takes_fast_path True True No List 6 (\<lambda>is_indexed. True) False
   \<and> (6 :: u32) mod 3 = 0"
proof -
  let ?env = "\<lparr>hw_shader_enabled = True, assembler_is_empty = True, topology = List,
      pipeline_use_gs = No, num_vertices = 6, vertex_offset = 0, index_u16 = False,
      index_address_8 = (\<lambda>i. 0), index_address_16 = (\<lambda>i. 0),
      AccelerateDrawBatch = (\<lambda>is_indexed. True), min_vertices_per_thread = 10,
      hardware_concurrency = 4, need_index_input = (\<lambda>i. False),
      need_index_input_after_setup = False,
      shade = (\<lambda>u i v c. (u, c)), fresh_unit = (), fresh_output = (),
      resize_reallocates = False\<rparr> :: (unit, unit) draw_env"
  have h: "trigger_draw ?env False ([], 0) = Some Accelerated"
    by (simp add: trigger_draw_def takes_fast_path_def accelerate_draw_def)
  from fast_path_only_when [OF h]
  have "takes_fast_path True True No List 6 (\<lambda>is_indexed. True) False" and "(6 :: u32) mod 3 = 0"
    by simp_all
  with h show ?thesis by simp
qed

section \<open>The vertex cache on the single-threaded path (C8)\<close>










text \<open>
  The cache invariant holds for the cache as it is first built (\<open>0x10000\<close> default entries,
  \<open>batch_id\<close> at its maximum) and after every draw that runs single-threaded.
\<close>

lemma cache_inv_initial: "cache_inv (replicate 0x10000 (fresh_entry env), 0xFFFFFFFF)"
  by (simp add: cache_inv_def fresh_entry_def)

lemma resize_cache_inv:
  assumes "cache_inv (cache, b)"
  shows "cache_inv (resize_cache env is_indexed cache, b)"
  using assms by (auto simp: cache_inv_def resize_cache_def fresh_entry_def)

lemma next_batch_inv:
  assumes "cache_inv (cache, b)"
  shows "cache_inv (next_batch (cache, b))"
proof (cases "b + 1 = 0")
  case True
  with assms show ?thesis by (auto simp: cache_inv_def next_batch_def Let_def)
next
  case False
  then have "unat (b + 1) = Suc (unat b)" by (simp add: unatSuc add.commute)
  then have "b \<le> b + 1" by (simp add: word_le_nat_alt)
  with assms False show ?thesis
    by (auto simp: cache_inv_def next_batch_def Let_def intro: order_trans)
qed

lemma VSUnitLoop_body_inv:
  assumes "cache_inv (vs_output st, b)"
  shows "cache_inv (vs_output (VSUnitLoop_body env is_indexed b i st), b)"
proof -
  define slot where
    "slot = (if is_indexed then unat (VertexIndex env is_indexed i) else i)"
  show ?thesis
  proof (cases "slot < length (vs_output st)")
    case True
    with assms have "cv_batch (vs_output st ! slot) \<le> b" by (simp add: cache_inv_def)
    with assms show ?thesis
      by (auto simp: cache_inv_def VSUnitLoop_body_def Let_def slot_def [symmetric]
            split: prod.split dest!: set_update_subset_insert [THEN subsetD])
  next
    case False
    then have "(vs_output st)[slot := entry] = vs_output st" for entry
      by (simp add: list_update_beyond)
    with assms show ?thesis
      by (auto simp: cache_inv_def VSUnitLoop_body_def Let_def slot_def [symmetric]
            split: prod.split)
  qed
qed

lemma VSUnitLoop_fold_inv:
  assumes "cache_inv (vs_output st, b)"
  shows "cache_inv (vs_output (fold (VSUnitLoop_body env is_indexed b) is st), b)"
  using assms by (induction "is" arbitrary: st) (simp_all add: VSUnitLoop_body_inv)

lemma cache_inv_preserved:
  assumes "cache_inv cb" and "trigger_draw env is_indexed cb = Some (SingleThreaded st b subs)"
  shows "cache_inv (vs_output st, b)"
proof -
  obtain cache1 b1 where nb: "next_batch (resize_cache env is_indexed (fst cb), snd cb) = (cache1, b1)"
    by (cases "next_batch (resize_cache env is_indexed (fst cb), snd cb)") auto
  from assms(1) have "cache_inv (fst cb, snd cb)" by simp
  from next_batch_inv [OF resize_cache_inv [OF this, of env is_indexed]] nb
  have "cache_inv (cache1, b1)" by simp
  then have "cache_inv (vs_output (VSUnitLoop env is_indexed b1 cache1), b1)"
    unfolding VSUnitLoop_def by (intro VSUnitLoop_fold_inv) simp
  moreover from assms(2) nb have "st = VSUnitLoop env is_indexed b1 cache1" "b = b1"
    by (auto simp: trigger_draw_def Let_def split: if_splits option.splits vs_dispatch.splits)
  ultimately show ?thesis by simp
qed




section \<open>Mirroring of vertex-unit program and swizzle writes (C7)\<close>

lemma loader_step_wf:
  assumes "loader_wf s"
  shows "loader_wf (loader_step s a)"
  using assms
  by (cases a) (auto simp: loader_wf_def vs_program_set_word_def vs_swizzle_set_word_def Let_def)

lemma loader_step_flag:
  "gs_unit_exclusive_configuration (loader_step s a) = gs_unit_exclusive_configuration s"
  by (cases a) (auto simp: vs_program_set_word_def vs_swizzle_set_word_def Let_def)

lemma update_agree:
  assumes "xs ! j = ys ! j" and "i < length xs" and "i < length ys"
  shows "xs[i := v] ! j = ys[i := v] ! j"
  using assms by (cases "i = j") simp_all

lemma program_step_agree:
  assumes "loader_wf s" and "gs_unit_exclusive_configuration s = 0"
    and "program_code (vs_setup s) ! j = program_code (gs_setup s) ! j"
  shows "program_code (vs_setup (loader_step s a)) ! j = program_code (gs_setup (loader_step s a)) ! j"
proof (cases a)
  case (ProgramSetWord v)
  show ?thesis
  proof (cases "vs_program_offset s < 512")
    case True
    then have "unat (vs_program_offset s) < 512" by (simp add: word_less_nat_alt)
    with assms(1) have "unat (vs_program_offset s) < length (program_code (vs_setup s))"
      "unat (vs_program_offset s) < length (program_code (gs_setup s))"
      by (simp_all add: loader_wf_def)
    from update_agree [OF assms(3) this] True assms(2) show ?thesis
      by (simp add: ProgramSetWord vs_program_set_word_def Let_def not_le [symmetric])
  next
    case False
    with assms(3) show ?thesis
      by (simp add: ProgramSetWord vs_program_set_word_def Let_def not_less)
  qed
next
  case (SwizzleSetWord v)
  with assms(3) show ?thesis by (simp add: vs_swizzle_set_word_def Let_def)
next
  case (ProgramOffset off)
  with assms(3) show ?thesis by simp
next
  case (SwizzleOffset off)
  with assms(3) show ?thesis by simp
qed

lemma swizzle_step_agree:
  assumes "loader_wf s" and "gs_unit_exclusive_configuration s = 0"
    and "swizzle_data (vs_setup s) ! j = swizzle_data (gs_setup s) ! j"
  shows "swizzle_data (vs_setup (loader_step s a)) ! j = swizzle_data (gs_setup (loader_step s a)) ! j"
proof (cases a)
  case (SwizzleSetWord v)
  show ?thesis
  proof (cases "unat (vs_swizzle_offset s) < length (swizzle_data (vs_setup s))")
    case True
    with assms(1) have "unat (vs_swizzle_offset s) < length (swizzle_data (gs_setup s))"
      by (simp add: loader_wf_def)
    from update_agree [OF assms(3) True this] True assms(2) show ?thesis
      by (simp add: SwizzleSetWord vs_swizzle_set_word_def Let_def not_le [symmetric])
  next
    case False
    with assms(3) show ?thesis
      by (simp add: SwizzleSetWord vs_swizzle_set_word_def Let_def not_less)
  qed
next
  case (ProgramSetWord v)
  with assms(3) show ?thesis by (simp add: vs_program_set_word_def Let_def)
next
  case (ProgramOffset off)
  with assms(3) show ?thesis by simp
next
  case (SwizzleOffset off)
  with assms(3) show ?thesis by simp
qed

lemma program_word_written:
  assumes "loader_wf s" and "vs_program_offset s < 512"
  shows "program_code (vs_setup (vs_program_set_word v s)) ! unat (vs_program_offset s) = v"
    and "gs_unit_exclusive_configuration s = 0 \<Longrightarrow>
         program_code (gs_setup (vs_program_set_word v s)) ! unat (vs_program_offset s) = v"
proof -
  from assms(2) have "unat (vs_program_offset s) < 512" by (simp add: word_less_nat_alt)
  with assms(1) have len: "unat (vs_program_offset s) < length (program_code (vs_setup s))"
      "unat (vs_program_offset s) < length (program_code (gs_setup s))"
    by (simp_all add: loader_wf_def)
  from assms(2) have nle: "\<not> 512 \<le> vs_program_offset s" by (simp add: not_le)
  show "program_code (vs_setup (vs_program_set_word v s)) ! unat (vs_program_offset s) = v"
    using len nle by (simp add: vs_program_set_word_def Let_def)
  show "gs_unit_exclusive_configuration s = 0 \<Longrightarrow>
         program_code (gs_setup (vs_program_set_word v s)) ! unat (vs_program_offset s) = v"
    using len nle by (simp add: vs_program_set_word_def Let_def)
qed

lemma swizzle_word_written:
  assumes "loader_wf s" and "unat (vs_swizzle_offset s) < length (swizzle_data (vs_setup s))"
  shows "swizzle_data (vs_setup (vs_swizzle_set_word v s)) ! unat (vs_swizzle_offset s) = v"
    and "gs_unit_exclusive_configuration s = 0 \<Longrightarrow>
         swizzle_data (gs_setup (vs_swizzle_set_word v s)) ! unat (vs_swizzle_offset s) = v"
proof -
  from assms have len: "unat (vs_swizzle_offset s) < length (swizzle_data (gs_setup s))"
    by (simp add: loader_wf_def)
  from assms(2) have nle: "\<not> length (swizzle_data (vs_setup s)) \<le> unat (vs_swizzle_offset s)"
    by simp
  show "swizzle_data (vs_setup (vs_swizzle_set_word v s)) ! unat (vs_swizzle_offset s) = v"
    using assms(2) nle by (simp add: vs_swizzle_set_word_def Let_def)
  show "gs_unit_exclusive_configuration s = 0 \<Longrightarrow>
         swizzle_data (gs_setup (vs_swizzle_set_word v s)) ! unat (vs_swizzle_offset s) = v"
    using len nle by (simp add: vs_swizzle_set_word_def Let_def)
qed

lemma run_agree_program:
  assumes "loader_wf s" and "gs_unit_exclusive_configuration s = 0"
    and "j \<in> set (program_offsets_written s ws) \<or>
         program_code (vs_setup s) ! j = program_code (gs_setup s) ! j"
  shows "program_code (vs_setup (loader_run s ws)) ! j = program_code (gs_setup (loader_run s ws)) ! j"
  using assms
proof (induction ws arbitrary: s)
  case Nil
  then show ?case by (simp add: loader_run_def)
next
  case (Cons a ws)
  have wf: "loader_wf (loader_step s a)" using Cons.prems(1) by (rule loader_step_wf)
  have fl: "gs_unit_exclusive_configuration (loader_step s a) = 0"
    using Cons.prems(2) by (simp add: loader_step_flag)
  have "j \<in> set (program_offsets_written (loader_step s a) ws) \<or>
        program_code (vs_setup (loader_step s a)) ! j = program_code (gs_setup (loader_step s a)) ! j"
  proof (cases "j \<in> set (program_offsets_written (loader_step s a) ws)")
    case True
    then show ?thesis by simp
  next
    case False
    show ?thesis
    proof (cases "program_code (vs_setup s) ! j = program_code (gs_setup s) ! j")
      case True
      from program_step_agree [OF Cons.prems(1) Cons.prems(2) True] show ?thesis by simp
    next
      case nag: False
      with Cons.prems(3) False obtain v where a: "a = ProgramSetWord v"
        and lt: "vs_program_offset s < 512" and j: "j = unat (vs_program_offset s)"
        by (cases a) (auto split: if_splits)
      from program_word_written [OF Cons.prems(1) lt, of v] Cons.prems(2) show ?thesis
        by (simp add: a j)
    qed
  qed
  from Cons.IH [OF wf fl this] show ?case by (simp add: loader_run_def)
qed

lemma run_agree_swizzle:
  assumes "loader_wf s" and "gs_unit_exclusive_configuration s = 0"
    and "j \<in> set (swizzle_offsets_written s ws) \<or>
         swizzle_data (vs_setup s) ! j = swizzle_data (gs_setup s) ! j"
  shows "swizzle_data (vs_setup (loader_run s ws)) ! j = swizzle_data (gs_setup (loader_run s ws)) ! j"
  using assms
proof (induction ws arbitrary: s)
  case Nil
  then show ?case by (simp add: loader_run_def)
next
  case (Cons a ws)
  have wf: "loader_wf (loader_step s a)" using Cons.prems(1) by (rule loader_step_wf)
  have fl: "gs_unit_exclusive_configuration (loader_step s a) = 0"
    using Cons.prems(2) by (simp add: loader_step_flag)
  have "j \<in> set (swizzle_offsets_written (loader_step s a) ws) \<or>
        swizzle_data (vs_setup (loader_step s a)) ! j = swizzle_data (gs_setup (loader_step s a)) ! j"
  proof (cases "j \<in> set (swizzle_offsets_written (loader_step s a) ws)")
    case True
    then show ?thesis by simp
  next
    case False
    show ?thesis
    proof (cases "swizzle_data (vs_setup s) ! j = swizzle_data (gs_setup s) ! j")
      case True
      from swizzle_step_agree [OF Cons.prems(1) Cons.prems(2) True] show ?thesis by simp
    next
      case nag: False
      with Cons.prems(3) False obtain v where a: "a = SwizzleSetWord v"
        and lt: "unat (vs_swizzle_offset s) < length (swizzle_data (vs_setup s))"
        and j: "j = unat (vs_swizzle_offset s)"
        by (cases a) (auto split: if_splits)
      from swizzle_word_written [OF Cons.prems(1) lt, of v] Cons.prems(2) show ?thesis
        by (simp add: a j)
    qed
  qed
  from Cons.IH [OF wf fl this] show ?case by (simp add: loader_run_def)
qed

lemma exclusive_step: 
  assumes "gs_unit_exclusive_configuration s \<noteq> 0"
  shows "gs_setup (loader_step s a) = gs_setup s"
  using assms by (cases a) (auto simp: vs_program_set_word_def vs_swizzle_set_word_def Let_def)

lemma exclusive_run:
  assumes "gs_unit_exclusive_configuration s \<noteq> 0"
  shows "gs_setup (loader_run s ws) = gs_setup s"
  using assms
proof (induction ws arbitrary: s)
  case Nil
  then show ?case by (simp add: loader_run_def)
next
  case (Cons a ws)
  have "gs_unit_exclusive_configuration (loader_step s a) \<noteq> 0"
    using Cons.prems by (simp add: loader_step_flag)
  from Cons.IH [OF this] exclusive_step [OF Cons.prems, of a] show ?case
    by (simp add: loader_run_def)
qed

text \<open>
  C7. While \<open>gs_unit_exclusive_configuration\<close> is clear, a vertex-shader program word
  written at an offset below 512, and a swizzle word written at an offset inside the
  table, is stored with the same value at the same offset of the geometry unit; after
  any sequence of such writes (and of writes to the two offset registers) every offset
  written holds the same word in both units. While the flag is set, the geometry unit
  is not written at all, and the vertex unit is.
\<close>

theorem vs_writes_mirrored:
  assumes "loader_wf s"
  shows "(gs_unit_exclusive_configuration s = 0 \<longrightarrow>
            (vs_program_offset s < 512 \<longrightarrow>
               program_code (vs_setup (vs_program_set_word v s)) ! unat (vs_program_offset s) = v \<and>
               program_code (gs_setup (vs_program_set_word v s)) ! unat (vs_program_offset s) = v) \<and>
            (unat (vs_swizzle_offset s) < length (swizzle_data (vs_setup s)) \<longrightarrow>
               swizzle_data (vs_setup (vs_swizzle_set_word v s)) ! unat (vs_swizzle_offset s) = v \<and>
               swizzle_data (gs_setup (vs_swizzle_set_word v s)) ! unat (vs_swizzle_offset s) = v) \<and>
            (\<forall>j \<in> set (program_offsets_written s ws).
               program_code (vs_setup (loader_run s ws)) ! j
                 = program_code (gs_setup (loader_run s ws)) ! j) \<and>
            (\<forall>j \<in> set (swizzle_offsets_written s ws).
               swizzle_data (vs_setup (loader_run s ws)) ! j
                 = swizzle_data (gs_setup (loader_run s ws)) ! j))
       \<and> (gs_unit_exclusive_configuration s \<noteq> 0 \<longrightarrow>
            gs_setup (vs_program_set_word v s) = gs_setup s \<and>
            gs_setup (vs_swizzle_set_word v s) = gs_setup s \<and>
            gs_setup (loader_run s ws) = gs_setup s \<and>
            (vs_program_offset s < 512 \<longrightarrow>
               program_code (vs_setup (vs_program_set_word v s)) ! unat (vs_program_offset s) = v) \<and>
            (unat (vs_swizzle_offset s) < length (swizzle_data (vs_setup s)) \<longrightarrow>
               swizzle_data (vs_setup (vs_swizzle_set_word v s)) ! unat (vs_swizzle_offset s) = v))"
proof (intro conjI impI ballI)
  assume "gs_unit_exclusive_configuration s = 0" "vs_program_offset s < 512"
  then show "program_code (vs_setup (vs_program_set_word v s)) ! unat (vs_program_offset s) = v"
    and "program_code (gs_setup (vs_program_set_word v s)) ! unat (vs_program_offset s) = v"
    using program_word_written [OF assms, of v] by simp_all
next
  assume "gs_unit_exclusive_configuration s = 0"
    "unat (vs_swizzle_offset s) < length (swizzle_data (vs_setup s))"
  then show "swizzle_data (vs_setup (vs_swizzle_set_word v s)) ! unat (vs_swizzle_offset s) = v"
    and "swizzle_data (gs_setup (vs_swizzle_set_word v s)) ! unat (vs_swizzle_offset s) = v"
    using swizzle_word_written [OF assms, of v] by simp_all
next
  fix j
  assume "gs_unit_exclusive_configuration s = 0" "j \<in> set (program_offsets_written s ws)"
  then show "program_code (vs_setup (loader_run s ws)) ! j = program_code (gs_setup (loader_run s ws)) ! j"
    using run_agree_program [OF assms, of j ws] by simp
next
  fix j
  assume "gs_unit_exclusive_configuration s = 0" "j \<in> set (swizzle_offsets_written s ws)"
  then show "swizzle_data (vs_setup (loader_run s ws)) ! j = swizzle_data (gs_setup (loader_run s ws)) ! j"
    using run_agree_swizzle [OF assms, of j ws] by simp
next
  assume e: "gs_unit_exclusive_configuration s \<noteq> 0"
  from exclusive_step [OF e, of "ProgramSetWord v"]
  show "gs_setup (vs_program_set_word v s) = gs_setup s" by simp
  from exclusive_step [OF e, of "SwizzleSetWord v"]
  show "gs_setup (vs_swizzle_set_word v s) = gs_setup s" by simp
  from exclusive_run [OF e] show "gs_setup (loader_run s ws) = gs_setup s" .
next
  assume "vs_program_offset s < 512"
  then show "program_code (vs_setup (vs_program_set_word v s)) ! unat (vs_program_offset s) = v"
    using program_word_written(1) [OF assms, of v] by simp
next
  assume "unat (vs_swizzle_offset s) < length (swizzle_data (vs_setup s))"
  then show "swizzle_data (vs_setup (vs_swizzle_set_word v s)) ! unat (vs_swizzle_offset s) = v"
    using swizzle_word_written(1) [OF assms, of v] by simp
qed

theorem vs_writes_mirrored_witness:
  "loader_wf \<lparr>vs_setup = \<lparr>program_code = replicate 4096 0, swizzle_data = replicate 4096 0,
                            program_code_dirty = False, swizzle_data_dirty = False\<rparr>,
               gs_setup = \<lparr>program_code = replicate 4096 1, swizzle_data = replicate 4096 1,
                            program_code_dirty = False, swizzle_data_dirty = False\<rparr>,
               vs_program_offset = 3, vs_swizzle_offset = 7,
               gs_unit_exclusive_configuration = 0, loader_log = []\<rparr>
   \<and> (3 :: u32) < 512
   \<and> program_code (gs_setup (vs_program_set_word 0xAA
         \<lparr>vs_setup = \<lparr>program_code = replicate 4096 0, swizzle_data = replicate 4096 0,
                       program_code_dirty = False, swizzle_data_dirty = False\<rparr>,
          gs_setup = \<lparr>program_code = replicate 4096 1, swizzle_data = replicate 4096 1,
                       program_code_dirty = False, swizzle_data_dirty = False\<rparr>,
          vs_program_offset = 3, vs_swizzle_offset = 7,
          gs_unit_exclusive_configuration = 0, loader_log = []\<rparr>)) ! 3 = 0xAA
   \<and> 4 \<in> set (program_offsets_written
         \<lparr>vs_setup = \<lparr>program_code = replicate 4096 0, swizzle_data = replicate 4096 0,
                       program_code_dirty = False, swizzle_data_dirty = False\<rparr>,
          gs_setup = \<lparr>program_code = replicate 4096 1, swizzle_data = replicate 4096 1,
                       program_code_dirty = False, swizzle_data_dirty = False\<rparr>,
          vs_program_offset = 3, vs_swizzle_offset = 7,
          gs_unit_exclusive_configuration = 0, loader_log = []\<rparr>
         [ProgramSetWord 0xAA, ProgramSetWord 0xBB, SwizzleSetWord 0xCC])
   \<and> program_code (vs_setup (loader_run
         \<lparr>vs_setup = \<lparr>program_code = replicate 4096 0, swizzle_data = replicate 4096 0,
                       program_code_dirty = False, swizzle_data_dirty = False\<rparr>,
          gs_setup = \<lparr>program_code = replicate 4096 1, swizzle_data = replicate 4096 1,
                       program_code_dirty = False, swizzle_data_dirty = False\<rparr>,
          vs_program_offset = 3, vs_swizzle_offset = 7,
          gs_unit_exclusive_configuration = 0, loader_log = []\<rparr>
         [ProgramSetWord 0xAA, ProgramSetWord 0xBB, SwizzleSetWord 0xCC])) ! 4
     = program_code (gs_setup (loader_run
         \<lparr>vs_setup = \<lparr>program_code = replicate 4096 0, swizzle_data = replicate 4096 0,
                       program_code_dirty = False, swizzle_data_dirty = False\<rparr>,
          gs_setup = \<lparr>program_code = replicate 4096 1, swizzle_data = replicate 4096 1,
                       program_code_dirty = False, swizzle_data_dirty = False\<rparr>,
          vs_program_offset = 3, vs_swizzle_offset = 7,
          gs_unit_exclusive_configuration = 0, loader_log = []\<rparr>
         [ProgramSetWord 0xAA, ProgramSetWord 0xBB, SwizzleSetWord 0xCC])) ! 4"
proof -
  let ?s = "\<lparr>vs_setup = \<lparr>program_code = replicate 4096 0, swizzle_data = replicate 4096 0,
                       program_code_dirty = False, swizzle_data_dirty = False\<rparr>,
          gs_setup = \<lparr>program_code = replicate 4096 1, swizzle_data = replicate 4096 1,
                       program_code_dirty = False, swizzle_data_dirty = False\<rparr>,
          vs_program_offset = 3, vs_swizzle_offset = 7,
          gs_unit_exclusive_configuration = 0, loader_log = []\<rparr>"
  let ?ws = "[ProgramSetWord 0xAA, ProgramSetWord 0xBB, SwizzleSetWord 0xCC]"
  have wf: "loader_wf ?s" by (simp add: loader_wf_def)
  have lt: "(3 :: u32) < 512" by simp
  have m: "4 \<in> set (program_offsets_written ?s ?ws)"
    by (simp add: vs_program_set_word_def)
  note t = vs_writes_mirrored [OF wf, of "0xAA" ?ws]
  from t lt have a: "program_code (gs_setup (vs_program_set_word 0xAA ?s)) ! 3 = 0xAA"
    by simp
  from t m have b: "program_code (vs_setup (loader_run ?s ?ws)) ! 4
      = program_code (gs_setup (loader_run ?s ?ws)) ! 4"
    by simp
  from wf lt a m b show ?thesis by blast
qed

section \<open>Invalid register ids and the notifications of \<open>WritePicaReg\<close> (C5)\<close>

lemma write_invalid:
  assumes "length (reg_array s) \<le> unat reg_id"
  shows "WritePicaReg env reg_id v pmask s =
           s\<lparr>events := events s @ [LogErrorInvalidRegister reg_id v pmask]\<rparr>"
  using assms by (simp add: WritePicaReg_def)

lemma dispatch_events:
  "\<exists>evs. events (dispatch_side_effects env reg_id v s) = events s @ map Collaborator evs"
proof (cases "reg_id = trigger0 env \<or> reg_id = trigger0 env + 1")
  case True
  then have "events (dispatch_side_effects env reg_id v s) = events s @ map Collaborator []"
    by (simp add: dispatch_side_effects_def Let_def)
  then show ?thesis by blast
next
  case False
  obtain regs' rest' evs where "other_cases env reg_id v (reg_array s) (rest s) = (regs', rest', evs)"
    by (cases "other_cases env reg_id v (reg_array s) (rest s)") auto
  with False have "events (dispatch_side_effects env reg_id v s) = events s @ map Collaborator evs"
    by (simp add: dispatch_side_effects_def)
  then show ?thesis by blast
qed

text \<open>
  The claim as stated fails for an id out of range: with tracing on and a debug context
  present, the write of register \<open>0x300\<close> to a file of \<open>0x300\<close> registers only logs the
  error; neither collaborator is notified.
\<close>

theorem invalid_write_counterexample:
  "events (WritePicaReg
     \<lparr>is_pica_tracing = True, has_debug_context = True, trigger0 = 0x23C,
      cmd_buffer_ptr = (\<lambda>regs index. 0), cmd_buffer_size = (\<lambda>regs index. 0),
      other_cases = (\<lambda>reg_id val regs x. (regs, x, [])), memory = (\<lambda>p. 0),
      cmd_id = (\<lambda>h. h AND 0xFFFF), parameter_mask = (\<lambda>h. drop_bit 16 h AND 0xF),
      extra_data_length = (\<lambda>h. drop_bit 20 h AND 0x7FF), group_commands = (\<lambda>h. bit h 31)\<rparr>
     0x300 0x12345678 0xF
     \<lparr>reg_array = replicate 0x300 0,
      cmd_list = \<lparr>head_ptr = 0, current_ptr = 0, cl_length = 0\<rparr>,
      events = ([] :: unit event list), rest = ()\<rparr>)
   = [LogErrorInvalidRegister 0x300 0x12345678 0xF]"
  by (simp add: WritePicaReg_def)

text \<open>
  C5 (amended). A write whose id is out of the valid register-index range logs an error
  and changes nothing else: no register, not the command-list cursor, and no
  collaborator is notified. For every valid write, after the store the trace
  collaborator, when tracing is on, is notified with the id and the mask (as 16-bit
  values) and the resulting value of the register, the debug-event collaborator, when
  present, is notified that the command is loaded and, after the side effects and the
  notification of the rasterizer, that it is processed.
\<close>

theorem write_notifications:
  "(length (reg_array s) \<le> unat reg_id \<longrightarrow>
      WritePicaReg env reg_id v pmask s =
        s\<lparr>events := events s @ [LogErrorInvalidRegister reg_id v pmask]\<rparr>)
   \<and> (unat reg_id < length (reg_array s) \<longrightarrow>
        (\<exists>evs. events (WritePicaReg env reg_id v pmask s) =
           events s
           @ (if is_pica_tracing env
              then [OnPicaRegWrite (ucast reg_id) (ucast pmask)
                      (store_reg (reg_array s) reg_id v pmask ! unat reg_id)]
              else [])
           @ (if has_debug_context env then [OnEvent PicaCommandLoaded reg_id] else [])
           @ map Collaborator evs
           @ [NotifyPicaRegisterChanged reg_id]
           @ (if has_debug_context env then [OnEvent PicaCommandProcessed reg_id] else [])))"
proof (intro conjI impI)
  assume "length (reg_array s) \<le> unat reg_id"
  then show "WritePicaReg env reg_id v pmask s =
        s\<lparr>events := events s @ [LogErrorInvalidRegister reg_id v pmask]\<rparr>"
    by (rule write_invalid)
next
  assume valid: "unat reg_id < length (reg_array s)"
  let ?regs1 = "store_reg (reg_array s) reg_id v pmask"
  let ?traced = "if is_pica_tracing env
      then [OnPicaRegWrite (ucast reg_id) (ucast pmask) (?regs1 ! unat reg_id)] else []"
  let ?loaded = "if has_debug_context env then [OnEvent PicaCommandLoaded reg_id] else []"
  let ?s1 = "s\<lparr>reg_array := ?regs1, events := events s @ ?traced @ ?loaded\<rparr>"
  from dispatch_events [of env reg_id v ?s1] obtain evs where
    "events (dispatch_side_effects env reg_id v ?s1) = events ?s1 @ map Collaborator evs"
    by blast
  with valid have "events (WritePicaReg env reg_id v pmask s) =
           events s @ ?traced @ ?loaded @ map Collaborator evs
           @ [NotifyPicaRegisterChanged reg_id]
           @ (if has_debug_context env then [OnEvent PicaCommandProcessed reg_id] else [])"
    by (simp add: WritePicaReg_def Let_def not_le [symmetric])
  then show "\<exists>evs. events (WritePicaReg env reg_id v pmask s) =
           events s @ ?traced @ ?loaded @ map Collaborator evs
           @ [NotifyPicaRegisterChanged reg_id]
           @ (if has_debug_context env then [OnEvent PicaCommandProcessed reg_id] else [])"
    by blast
qed

theorem write_notifications_witness:
  "length (replicate 0x300 (0 :: u32)) \<le> unat (0x300 :: u32)
   \<and> WritePicaReg
     \<lparr>is_pica_tracing = True, has_debug_context = True, trigger0 = 0x23C,
      cmd_buffer_ptr = (\<lambda>regs index. 0), cmd_buffer_size = (\<lambda>regs index. 0),
      other_cases = (\<lambda>reg_id val regs x. (regs, x, [])), memory = (\<lambda>p. 0),
      cmd_id = (\<lambda>h. h AND 0xFFFF), parameter_mask = (\<lambda>h. drop_bit 16 h AND 0xF),
      extra_data_length = (\<lambda>h. drop_bit 20 h AND 0x7FF), group_commands = (\<lambda>h. bit h 31)\<rparr>
     0x300 0x12345678 0xF
     \<lparr>reg_array = replicate 0x300 0,
      cmd_list = \<lparr>head_ptr = 0, current_ptr = 0, cl_length = 0\<rparr>,
      events = ([] :: unit event list), rest = ()\<rparr>
     = \<lparr>reg_array = replicate 0x300 0,
        cmd_list = \<lparr>head_ptr = 0, current_ptr = 0, cl_length = 0\<rparr>,
        events = [LogErrorInvalidRegister 0x300 0x12345678 0xF], rest = ()\<rparr>
   \<and> unat (0x41 :: u32) < length (replicate 0x300 (0 :: u32))
   \<and> events (WritePicaReg
     \<lparr>is_pica_tracing = True, has_debug_context = True, trigger0 = 0x23C,
      cmd_buffer_ptr = (\<lambda>regs index. 0), cmd_buffer_size = (\<lambda>regs index. 0),
      other_cases = (\<lambda>reg_id val regs x. (regs, x, [])), memory = (\<lambda>p. 0),
      cmd_id = (\<lambda>h. h AND 0xFFFF), parameter_mask = (\<lambda>h. drop_bit 16 h AND 0xF),
      extra_data_length = (\<lambda>h. drop_bit 20 h AND 0x7FF), group_commands = (\<lambda>h. bit h 31)\<rparr>
     0x41 0x12345678 0xF
     \<lparr>reg_array = replicate 0x300 0,
      cmd_list = \<lparr>head_ptr = 0, current_ptr = 0, cl_length = 0\<rparr>,
      events = ([] :: unit event list), rest = ()\<rparr>)
     = [OnPicaRegWrite 0x41 0xF 0x12345678, OnEvent PicaCommandLoaded 0x41,
        NotifyPicaRegisterChanged 0x41, OnEvent PicaCommandProcessed 0x41]"
proof -
  let ?env = "\<lparr>is_pica_tracing = True, has_debug_context = True, trigger0 = 0x23C,
      cmd_buffer_ptr = (\<lambda>regs index. 0), cmd_buffer_size = (\<lambda>regs index. 0),
      other_cases = (\<lambda>reg_id val regs x. (regs, x, [])), memory = (\<lambda>p. 0),
      cmd_id = (\<lambda>h. h AND 0xFFFF), parameter_mask = (\<lambda>h. drop_bit 16 h AND 0xF),
      extra_data_length = (\<lambda>h. drop_bit 20 h AND 0x7FF), group_commands = (\<lambda>h. bit h 31)\<rparr>
      :: (unit, unit) pica_env"
  let ?s = "\<lparr>reg_array = replicate 0x300 0,
      cmd_list = \<lparr>head_ptr = 0, current_ptr = 0, cl_length = 0\<rparr>,
      events = ([] :: unit event list), rest = ()\<rparr>"
  have h1: "length (reg_array ?s) \<le> unat (0x300 :: u32)" by simp
  have h2: "unat (0x41 :: u32) < length (reg_array ?s)" by simp
  from write_notifications [of ?s "0x300" ?env "0x12345678" "0xF"] h1
  have a: "WritePicaReg ?env 0x300 0x12345678 0xF ?s
      = ?s\<lparr>events := events ?s @ [LogErrorInvalidRegister 0x300 0x12345678 0xF]\<rparr>"
    by blast
  have v: "store_reg (reg_array ?s) 0x41 0x12345678 0xF ! unat (0x41 :: u32) = 0x12345678"
    by (simp add: store_reg_def masked_value_def expand_bits_to_bytes_def)
  from write_notifications [of ?s "0x41" ?env "0x12345678" "0xF"] h2 v
  obtain evs where e: "events (WritePicaReg ?env 0x41 0x12345678 0xF ?s) =
       events ?s @ [OnPicaRegWrite 0x41 0xF 0x12345678] @ [OnEvent PicaCommandLoaded 0x41]
       @ map Collaborator evs @ [NotifyPicaRegisterChanged 0x41] @ [OnEvent PicaCommandProcessed 0x41]"
    by auto
  then have "evs = []"
    by (auto simp: WritePicaReg_def dispatch_side_effects_def Let_def append_eq_Cons_conv
          Cons_eq_append_conv)
  with e have b: "events (WritePicaReg ?env 0x41 0x12345678 0xF ?s)
     = [OnPicaRegWrite 0x41 0xF 0x12345678, OnEvent PicaCommandLoaded 0x41,
        NotifyPicaRegisterChanged 0x41, OnEvent PicaCommandProcessed 0x41]"
    by simp
  from h1 h2 a b show ?thesis by simp
qed

section \<open>The command-list walk (C9)\<close>

lemma WritePicaReg_cmd_list:
  assumes "\<not> is_trigger env reg_id"
  shows "cmd_list (WritePicaReg env reg_id v pmask s) = cmd_list s"
proof (cases "length (reg_array s) \<le> unat reg_id")
  case True
  then show ?thesis by (simp add: WritePicaReg_def)
next
  case False
  have "cmd_list (dispatch_side_effects env reg_id v t) = cmd_list t" for t
    using assms by (simp add: dispatch_side_effects_def is_trigger_def split: prod.split)
  with False show ?thesis by (simp add: WritePicaReg_def Let_def)
qed

lemma extra_write_cmd_list:
  assumes "\<not> is_trigger env (cmd_id env header + (if group_commands env header then of_nat i + 1 else 0))"
  shows "cmd_list (extra_write env header i s)
           = (cmd_list s)\<lparr>current_ptr := current_ptr (cmd_list s) + 1\<rparr>"
  using assms by (simp add: extra_write_def read_word_def Let_def WritePicaReg_cmd_list)

lemma extra_writes_cmd_list:
  assumes "\<forall>i<n. \<not> is_trigger env
             (cmd_id env header + (if group_commands env header then of_nat i + 1 else 0))"
  shows "cmd_list (fold (extra_write env header) [0..<n] s)
           = (cmd_list s)\<lparr>current_ptr := current_ptr (cmd_list s) + int n\<rparr>"
  using assms
proof (induction n)
  case 0
  then show ?case by simp
next
  case (Suc n)
  then have "cmd_list (fold (extra_write env header) [0..<n] s)
           = (cmd_list s)\<lparr>current_ptr := current_ptr (cmd_list s) + int n\<rparr>"
    by simp
  moreover from Suc.prems have "\<not> is_trigger env
      (cmd_id env header + (if group_commands env header then of_nat n + 1 else 0))"
    by simp
  ultimately show ?case
    by (simp add: extra_write_cmd_list add.assoc)
qed

text \<open>An iteration whose header targets no trigger register: one value word, one header
  word and the extra data are consumed, after the alignment step.\<close>

lemma iteration_cmd_list:
  assumes "cmd_list s = \<lparr>head_ptr = head, current_ptr = cur, cl_length = len\<rparr>"
    and "cur0 = (if c_rem (head - cur) 2 \<noteq> 0 then cur + 1 else cur)"
    and "\<forall>reg_id \<in> set (header_targets env (memory env (cur0 + 1))). \<not> is_trigger env reg_id"
  shows "cmd_list (command_iteration env s)
           = \<lparr>head_ptr = head,
              current_ptr = cur0 + 2 + uint (extra_data_length env (memory env (cur0 + 1))),
              cl_length = len\<rparr>"
proof -
  let ?h = "memory env (cur0 + 1)"
  let ?s0 = "if c_rem (head_ptr (cmd_list s) - current_ptr (cmd_list s)) 2 \<noteq> 0
             then s\<lparr>cmd_list := (cmd_list s)\<lparr>current_ptr := current_ptr (cmd_list s) + 1\<rparr>\<rparr>
             else s"
  have c0: "cmd_list ?s0 = \<lparr>head_ptr = head, current_ptr = cur0, cl_length = len\<rparr>"
    using assms(1,2) by simp
  obtain v s1 where r1: "read_word env ?s0 = (v, s1)" by (cases "read_word env ?s0") auto
  then have c1: "cmd_list s1 = \<lparr>head_ptr = head, current_ptr = cur0 + 1, cl_length = len\<rparr>"
    using c0 by (auto simp: read_word_def)
  obtain h s2 where r2: "read_word env s1 = (h, s2)" by (cases "read_word env s1") auto
  then have c2: "cmd_list s2 = \<lparr>head_ptr = head, current_ptr = cur0 + 2, cl_length = len\<rparr>"
    and h: "h = ?h"
    using c1 by (auto simp: read_word_def)
  from assms(3) have t0: "\<not> is_trigger env (cmd_id env ?h)"
    by (simp add: header_targets_def)
  from assms(3) have ti: "\<forall>i<unat (extra_data_length env ?h). \<not> is_trigger env
             (cmd_id env ?h + (if group_commands env ?h then of_nat i + 1 else 0))"
    by (auto simp: header_targets_def)
  let ?s3 = "WritePicaReg env (cmd_id env ?h) v (parameter_mask env ?h) s2"
  have c3: "cmd_list ?s3 = \<lparr>head_ptr = head, current_ptr = cur0 + 2, cl_length = len\<rparr>"
    using WritePicaReg_cmd_list [OF t0] c2 by simp
  have "command_iteration env s = fold (extra_write env ?h) [0..<unat (extra_data_length env ?h)] ?s3"
    unfolding command_iteration_def Let_def r1 r2 prod.case h ..
  with extra_writes_cmd_list [OF ti, of ?s3] c3 show ?thesis
    by simp
qed

lemma aligned_cursor_ge: "cur \<le> (if c_rem (head - cur) 2 \<noteq> 0 then cur + 1 else cur)"
  for cur :: int
  by simp

lemma loop_terminates:
  assumes "\<forall>p \<in> set (header_positions env head l cur).
             \<forall>reg_id \<in> set (header_targets env (memory env p)). \<not> is_trigger env reg_id"
    and "cmd_list s = \<lparr>head_ptr = head, current_ptr = cur, cl_length = len\<rparr>"
    and "l = uint len"
  shows "\<exists>s'. command_loop env s = Some s' \<and> head_ptr (cmd_list s') = head \<and>
           cl_length (cmd_list s') = len \<and> head + uint len \<le> current_ptr (cmd_list s')"
  using assms
proof (induction env head l cur arbitrary: s rule: header_positions.induct)
  case (1 env head l cur)
  show ?case
  proof (cases "cur < head + l")
    case False
    with "1.prems"(2,3) have "command_loop env s = Some s"
      by (subst command_loop.simps) simp
    with False "1.prems"(2,3) show ?thesis by simp
  next
    case True
    define cur0 where "cur0 = (if c_rem (head - cur) 2 \<noteq> 0 then cur + 1 else cur)"
    define header where "header = memory env (cur0 + 1)"
    define nxt where "nxt = cur0 + 2 + uint (extra_data_length env header)"
    have hp: "header_positions env head l cur = (cur0 + 1) # header_positions env head l nxt"
      using True by (subst header_positions.simps) (simp add: cur0_def header_def nxt_def Let_def)
    from "1.prems"(1) have tgt:
      "\<forall>reg_id \<in> set (header_targets env (memory env (cur0 + 1))). \<not> is_trigger env reg_id"
      and rest: "\<forall>p \<in> set (header_positions env head l nxt).
             \<forall>reg_id \<in> set (header_targets env (memory env p)). \<not> is_trigger env reg_id"
      unfolding hp by simp_all
    from iteration_cmd_list [OF "1.prems"(2) cur0_def tgt]
    have c: "cmd_list (command_iteration env s)
          = \<lparr>head_ptr = head, current_ptr = nxt, cl_length = len\<rparr>"
      by (simp add: nxt_def header_def)
    from "1.IH" [OF True cur0_def header_def, folded nxt_def, OF rest c "1.prems"(3)]
    obtain s' where "command_loop env (command_iteration env s) = Some s'"
      "head_ptr (cmd_list s') = head" "cl_length (cmd_list s') = len"
      "head + uint len \<le> current_ptr (cmd_list s')"
      by blast
    moreover from True "1.prems"(2,3)
    have "command_loop env s = command_loop env (command_iteration env s)"
      by (subst command_loop.simps) simp
    ultimately show ?thesis by simp
  qed
qed

text \<open>
  The claim as stated fails for a list that triggers itself. The list of two words at
  word address \<open>0x200\<close> holds a value and a header that writes the value to
  \<open>command_buffer.trigger[0]\<close> (register \<open>0x23C\<close>, mask \<open>0xF\<close>, no extra data), and the
  registers \<open>command_buffer.size[0]\<close> and \<open>addr[0]\<close> (\<open>0x238\<close>, \<open>0x23A\<close>; both in units of 8
  bytes) describe this very list. The trigger case of the switch (lines 255--264) puts
  the cursor back to the head of the list after every iteration, and the loop never
  ends.
\<close>

lemma walk_env_sel:
  "is_pica_tracing (walk_env mem) = False" "has_debug_context (walk_env mem) = False"
  "trigger0 (walk_env mem) = 0x23C"
  "cmd_buffer_ptr (walk_env mem) = (\<lambda>regs index. 2 * uint (take_bit 28 (regs ! (0x23A + unat index))))"
  "cmd_buffer_size (walk_env mem) = (\<lambda>regs index. 8 * take_bit 20 (regs ! (0x238 + unat index)))"
  "other_cases (walk_env mem) = (\<lambda>reg_id val regs x. (regs, x, []))"
  "memory (walk_env mem) = mem"
  "cmd_id (walk_env mem) = (\<lambda>h. h AND 0xFFFF)"
  "parameter_mask (walk_env mem) = (\<lambda>h. drop_bit 16 h AND 0xF)"
  "extra_data_length (walk_env mem) = (\<lambda>h. drop_bit 20 h AND 0x7FF)"
  "group_commands (walk_env mem) = (\<lambda>h. bit h 31)"
  by (simp_all add: walk_env_def)

theorem self_trigger_counterexample:
  "ProcessCommandList (walk_env (\<lambda>p. if p = 0x201 then 0x000F023C else 0)) 0x200 8
     \<lparr>reg_array = (replicate 0x300 0)[0x238 := 1, 0x23A := 0x100],
      cmd_list = \<lparr>head_ptr = 0, current_ptr = 0, cl_length = 0\<rparr>,
      events = [], rest = ()\<rparr>
   = None"
proof -
  let ?env = "walk_env (\<lambda>p. if p = 0x201 then 0x000F023C else 0)"
  let ?I = "\<lambda>s :: (unit, unit) pica_state.
      cmd_list s = \<lparr>head_ptr = 0x200, current_ptr = 0x200, cl_length = 2\<rparr> \<and>
      length (reg_array s) = 0x300 \<and> reg_array s ! 0x238 = 1 \<and> reg_array s ! 0x23A = 0x100"
  have hdr: "(0x000F023C :: u32) AND 0xFFFF = 0x23C" "drop_bit 16 (0x000F023C :: u32) AND 0xF = 0xF"
    "drop_bit 20 (0x000F023C :: u32) AND 0x7FF = 0"
    by simp_all
  have step: "?I (command_iteration ?env s)" if "?I s" for s
    using that
    by (simp add: command_iteration_def read_word_def c_rem_def Let_def hdr WritePicaReg_def
          dispatch_side_effects_def store_reg_def walk_env_sel)
  have never: "env = ?env \<longrightarrow> ?I s \<longrightarrow> False" if run: "command_loop env s = Some y" for env s y
  proof (induction rule: command_loop.raw_induct [OF _ run])
    case (1 loop env s y)
    show ?case
    proof (intro impI)
      assume e: "env = ?env" and i: "?I s"
      from i 1(2) have "loop env (command_iteration env s) = Some y"
        by simp
      from 1(1) [OF this] e step [OF i] show False by simp
    qed
  qed
  let ?s0 = "\<lparr>reg_array = (replicate 0x300 0)[0x238 := 1, 0x23A := 0x100],
      cmd_list = \<lparr>head_ptr = 0x200, current_ptr = 0x200, cl_length = 8 div 4\<rparr>,
      events = ([] :: unit event list), rest = ()\<rparr>"
  have "?I ?s0" by simp
  with never [of ?env ?s0] have "command_loop ?env ?s0 = None"
    by (cases "command_loop ?env ?s0") auto
  then show ?thesis by (simp add: ProcessCommandList_def)
qed

text \<open>
  C9 (amended). For every command buffer of finite declared length in which no header
  read by the walk makes it write a command-buffer trigger register,
  \<open>ProcessCommandList\<close> terminates, with the cursor at or past \<open>head + length\<close> and the
  head and the length as they were set. Each iteration whose header targets no trigger
  register consumes one value word, then one header word and the extra data words
  (after one extra word first when the cursor is at an odd word offset from the head):
  the cursor advances by at least two words, whatever else the header holds, and the
  head and the length stay.
\<close>

theorem walk_terminates:
  assumes "trigger_free env list_ptr size_bytes"
  shows "(\<exists>s'. ProcessCommandList env list_ptr size_bytes s = Some s' \<and>
            head_ptr (cmd_list s') = list_ptr \<and> cl_length (cmd_list s') = size_bytes div 4 \<and>
            list_ptr + uint (size_bytes div 4) \<le> current_ptr (cmd_list s'))
       \<and> ((\<forall>reg_id \<in> set (header_targets env (memory env
               ((if c_rem (head_ptr (cmd_list t) - current_ptr (cmd_list t)) 2 \<noteq> 0
                 then current_ptr (cmd_list t) + 1 else current_ptr (cmd_list t)) + 1))).
              \<not> is_trigger env reg_id) \<longrightarrow>
            current_ptr (cmd_list t) + 2 \<le> current_ptr (cmd_list (command_iteration env t)) \<and>
            head_ptr (cmd_list (command_iteration env t)) = head_ptr (cmd_list t) \<and>
            cl_length (cmd_list (command_iteration env t)) = cl_length (cmd_list t))"
proof -
  let ?s0 = "s\<lparr>cmd_list := \<lparr>head_ptr = list_ptr, current_ptr = list_ptr,
                                cl_length = size_bytes div 4\<rparr>\<rparr>"
  from assms have "\<forall>p \<in> set (header_positions env list_ptr (uint (size_bytes div 4)) list_ptr).
             \<forall>reg_id \<in> set (header_targets env (memory env p)). \<not> is_trigger env reg_id"
    by (simp add: trigger_free_def)
  from loop_terminates [OF this, of ?s0 "size_bytes div 4"]
  have a: "\<exists>s'. ProcessCommandList env list_ptr size_bytes s = Some s' \<and>
            head_ptr (cmd_list s') = list_ptr \<and> cl_length (cmd_list s') = size_bytes div 4 \<and>
            list_ptr + uint (size_bytes div 4) \<le> current_ptr (cmd_list s')"
    by (simp add: ProcessCommandList_def)
  let ?cur0 = "if c_rem (head_ptr (cmd_list t) - current_ptr (cmd_list t)) 2 \<noteq> 0
                 then current_ptr (cmd_list t) + 1 else current_ptr (cmd_list t)"
  have b: "current_ptr (cmd_list t) + 2 \<le> current_ptr (cmd_list (command_iteration env t)) \<and>
        head_ptr (cmd_list (command_iteration env t)) = head_ptr (cmd_list t) \<and>
        cl_length (cmd_list (command_iteration env t)) = cl_length (cmd_list t)"
    if tgt: "\<forall>reg_id \<in> set (header_targets env (memory env (?cur0 + 1))). \<not> is_trigger env reg_id"
  proof -
    have c: "cmd_list t = \<lparr>head_ptr = head_ptr (cmd_list t), current_ptr = current_ptr (cmd_list t),
                         cl_length = cl_length (cmd_list t)\<rparr>"
      by simp
    have "0 \<le> uint (extra_data_length env (memory env (?cur0 + 1)))" by simp
    moreover have "current_ptr (cmd_list t) \<le> ?cur0" by simp
    ultimately have "current_ptr (cmd_list t) + 2
        \<le> ?cur0 + 2 + uint (extra_data_length env (memory env (?cur0 + 1)))"
      by linarith
    with iteration_cmd_list [OF c refl tgt] show ?thesis by simp
  qed
  from a b show ?thesis by blast
qed

theorem walk_terminates_witness:
  "trigger_free
     (walk_env (\<lambda>p. if p = 0x201 then 0x001F0041 else if p = 0x205 then 0x000F0042 else 0x11))
     0x200 24
   \<and> (\<exists>s'. ProcessCommandList
     (walk_env (\<lambda>p. if p = 0x201 then 0x001F0041 else if p = 0x205 then 0x000F0042 else 0x11))
     0x200 24
     \<lparr>reg_array = replicate 0x300 0,
      cmd_list = \<lparr>head_ptr = 0, current_ptr = 0, cl_length = 0\<rparr>,
      events = [], rest = ()\<rparr> = Some s'
     \<and> head_ptr (cmd_list s') = 0x200 \<and> 0x206 \<le> current_ptr (cmd_list s'))"
proof -
  let ?env = "walk_env (\<lambda>p. if p = 0x201 then 0x001F0041 else if p = 0x205 then 0x000F0042 else 0x11)"
  let ?s = "\<lparr>reg_array = replicate 0x300 0,
      cmd_list = \<lparr>head_ptr = 0, current_ptr = 0, cl_length = 0\<rparr>,
      events = ([] :: unit event list), rest = ()\<rparr>"
  have hdr: "drop_bit 20 (0x001F0041 :: u32) AND 0x7FF = 1" "(0x001F0041 :: u32) AND 0xFFFF = 0x41"
    "drop_bit 20 (0x000F0042 :: u32) AND 0x7FF = 0" "(0x000F0042 :: u32) AND 0xFFFF = 0x42"
    "\<not> bit (0x001F0041 :: u32) 31"
    by (simp_all add: bit_iff_odd_drop_bit)
  have p3: "header_positions ?env 0x200 6 0x206 = []"
    by (subst header_positions.simps) simp
  have p2: "header_positions ?env 0x200 6 0x203 = [0x205]"
    by (subst header_positions.simps) (simp add: c_rem_def hdr Let_def p3 walk_env_sel)
  have pos: "header_positions ?env 0x200 6 0x200 = [0x201, 0x205]"
    by (subst header_positions.simps) (simp add: c_rem_def hdr Let_def p2 walk_env_sel)
  have free: "trigger_free ?env 0x200 24"
    by (simp add: trigger_free_def pos header_targets_def is_trigger_def hdr walk_env_sel)
  from walk_terminates [OF free, of ?s]
  have "\<exists>s'. ProcessCommandList ?env 0x200 24 ?s = Some s'
     \<and> head_ptr (cmd_list s') = 0x200 \<and> 0x206 \<le> current_ptr (cmd_list s')"
    by auto
  with free show ?thesis by simp
qed

end
